theory Spec2Isabelle
  imports Main "HOL-Library.Word"
begin

section \<open>Build configuration, fatal exits and C library text\<close>

text \<open>
  The two preprocessor switches the sources test: \<^verbatim>\<open>NDEBUG\<close> removes every
  \<^verbatim>\<open>assert\<close>, \<^verbatim>\<open>CHECK_PTHREAD_RETURN_VALUE\<close> selects the first definition of the
  \<^verbatim>\<open>MCHECK\<close> macro of \<^verbatim>\<open>mutex.h\<close>.
\<close>

record build =
  NDEBUG :: bool
  CHECK_PTHREAD_RETURN_VALUE :: bool

text \<open>How a process can die in these sources.\<close>

datatype fatal =
  AssertFail string       \<comment> \<open>\<^verbatim>\<open>assert(e)\<close> with \<open>e\<close> false; the expression text\<close>
| AssertPerrorFail int    \<comment> \<open>\<^verbatim>\<open>__assert_perror_fail(errnum, ...)\<close>\<close>
| Abort                   \<comment> \<open>\<^verbatim>\<open>abort()\<close>\<close>
| Terminate               \<comment> \<open>an exception leaves the thread function: \<^verbatim>\<open>std::terminate\<close>\<close>
| Segfault                \<comment> \<open>a null or dangling pointer is dereferenced\<close>

text \<open>
  The outcome of running a piece of code on a state: it returns a value, it kills the
  process (the state is the one at the moment of death), it never returns (it blocks or
  runs forever; the state is the one it is stuck in), or it is left by an exception that
  it does not handle.
\<close>

datatype ('a, 's) outcome = Returns 'a 's | Dies fatal 's | Blocks 's | Rethrows 's

definition assert_c :: "build \<Rightarrow> string \<Rightarrow> bool \<Rightarrow> fatal option" where
  "assert_c b e c = (if NDEBUG b \<or> c then None else Some (AssertFail e))"

definition MCHECK :: "build \<Rightarrow> int \<Rightarrow> fatal option" where
  "MCHECK b errnum =
     (if CHECK_PTHREAD_RETURN_VALUE b
      then (if errnum \<noteq> 0 then Some (AssertPerrorFail errnum) else None)
      else assert_c b ''errnum == 0'' (errnum = 0))"

text \<open>
  A \<^verbatim>\<open>std::string\<close> is a byte list. \<^verbatim>\<open>c_str()\<close> read through \<^verbatim>\<open>%s\<close> or as a
  \<^verbatim>\<open>const char*\<close> ends at the first NUL byte.
\<close>

definition c_str :: "string \<Rightarrow> string" where
  "c_str s = takeWhile (\<lambda>c. c \<noteq> CHR 0x00) s"

definition newline :: string where
  "newline = [CHR 0x0A]"

text \<open>The \<^verbatim>\<open>%d\<close> conversion of \<^verbatim>\<open>snprintf\<close>: decimal digits, a minus sign when negative.\<close>

definition digit_char :: "nat \<Rightarrow> char" where
  "digit_char d = char_of (48 + d)"

fun digits10 :: "nat \<Rightarrow> string" where
  "digits10 n =
     (if n < 10 then [digit_char n] else digits10 (n div 10) @ [digit_char (n mod 10)])"

declare digits10.simps [simp del]

definition fmt_d :: "int \<Rightarrow> string" where
  "fmt_d i = (if i < 0 then CHR ''-'' # digits10 (nat (- i)) else digits10 (nat i))"

text \<open>\<^verbatim>\<open>%5d\<close>: right-justified in a field of at least five characters.\<close>

definition fmt_5d :: "int \<Rightarrow> string" where
  "fmt_5d i = replicate (5 - length (fmt_d i)) CHR '' '' @ fmt_d i"

text \<open>
  \<^verbatim>\<open>snprintf(buf, size, ...)\<close> stores at most \<open>size - 1\<close> characters of the formatted
  text (and a NUL), and returns the length of the whole formatted text.
\<close>

definition snprintf :: "nat \<Rightarrow> string \<Rightarrow> string \<times> int" where
  "snprintf bufsize text = (take (bufsize - 1) text, int (length text))"

text \<open>
  The number that a string of decimal digits stands for (used to show that \<^verbatim>\<open>%d\<close>
  gives different numbers different texts).
\<close>

definition decimal_value :: "string \<Rightarrow> nat" where
  "decimal_value s = foldl (\<lambda>acc c. 10 * acc + (of_char c - 48)) 0 s"

section \<open>CurrentThread: the cached thread identity\<close>

text \<open>A kernel thread identity. Nothing here does arithmetic on one.\<close>

type_synonym pid_t = int

text \<open>The thread-local variables of namespace \<^verbatim>\<open>CurrentThread\<close>, one copy per thread.\<close>

record CurrentThread =
  t_cachedTid :: pid_t
  t_tidString :: string
  t_tidStringLength :: int
  t_threadName :: string

text \<open>
  \<^verbatim>\<open>CurrentThread::cacheTid\<close> (thread.cc). The argument \<open>gettid\<close> is what
  \<^verbatim>\<open>detail::gettid()\<close>, the system call, returns in the calling thread. The buffer
  \<^verbatim>\<open>t_tidString\<close> is declared in a header that is not among the sources; its size is
  taken to be 32, which the five-or-more characters of \<^verbatim>\<open>%5d\<close> and the blank never
  reach.
\<close>

definition cacheTid :: "pid_t \<Rightarrow> CurrentThread \<Rightarrow> CurrentThread" where
  "cacheTid gettid ct =
     (if t_cachedTid ct = 0
      then (let (buf, n) = snprintf 32 (fmt_5d gettid @ '' '')
            in ct\<lparr>t_cachedTid := gettid, t_tidString := buf, t_tidStringLength := n\<rparr>)
      else ct)"

text \<open>
  Modelled from the spec: \<^verbatim>\<open>CurrentThread::tid()\<close> is declared in
  \<^verbatim>\<open>Base/currentThread.h\<close>, which is not among the sources. The spec (4.3): it
  ``returns the calling thread's cached identifier, computing and caching it on first call
  per thread''. The computing is \<open>cacheTid\<close> above; ``not yet computed'' is the value 0
  that \<open>cacheTid\<close> and \<^verbatim>\<open>afterFork\<close> test and store.
\<close>

definition CurrentThread_tid :: "pid_t \<Rightarrow> CurrentThread \<Rightarrow> pid_t \<times> CurrentThread" where
  "CurrentThread_tid gettid ct =
     (let ct' = (if t_cachedTid ct = 0 then cacheTid gettid ct else ct)
      in (t_cachedTid ct', ct'))"

text \<open>
  Modelled from the spec: the thread-local variables are defined in a file that is not
  among the sources. A thread that has not asked for its identity has nothing cached
  (data model: ``lazily computed''); this is the state of a newly created thread. Its
  name and identity text, which nothing below reads before writing, are left empty.
\<close>

definition fresh_thread :: CurrentThread where
  "fresh_thread =
     \<lparr>t_cachedTid = 0, t_tidString = [], t_tidStringLength = 0, t_threadName = []\<rparr>"

section \<open>MutexLock\<close>

subsection \<open>The pthread mutex underneath\<close>

text \<open>
  A \<^verbatim>\<open>PTHREAD_MUTEX_NORMAL\<close> mutex as the C library provides it: free, locked by a
  thread, or destroyed. A thread is named by its kernel identity. Locking a locked mutex
  does not return (\<open>None\<close>): the caller waits, for ever if it is the owner itself.
  Unlocking does not check the owner. Destroying a locked mutex fails with
  \<^verbatim>\<open>EBUSY\<close>; any use of a destroyed mutex fails with \<^verbatim>\<open>EINVAL\<close>.
\<close>

datatype pthread_mutex_t = Unlocked | Locked pid_t | Destroyed

definition EBUSY :: int where "EBUSY = 16"
definition EINVAL :: int where "EINVAL = 22"

fun pthread_mutex_lock :: "pid_t \<Rightarrow> pthread_mutex_t \<Rightarrow> (int \<times> pthread_mutex_t) option" where
  "pthread_mutex_lock t Unlocked = Some (0, Locked t)"
| "pthread_mutex_lock t (Locked owner) = None"
| "pthread_mutex_lock t Destroyed = Some (EINVAL, Destroyed)"

fun pthread_mutex_unlock :: "pthread_mutex_t \<Rightarrow> int \<times> pthread_mutex_t" where
  "pthread_mutex_unlock Unlocked = (0, Unlocked)"
| "pthread_mutex_unlock (Locked owner) = (0, Unlocked)"
| "pthread_mutex_unlock Destroyed = (EINVAL, Destroyed)"

fun pthread_mutex_destroy :: "pthread_mutex_t \<Rightarrow> int \<times> pthread_mutex_t" where
  "pthread_mutex_destroy Unlocked = (0, Destroyed)"
| "pthread_mutex_destroy (Locked owner) = (EBUSY, Locked owner)"
| "pthread_mutex_destroy Destroyed = (EINVAL, Destroyed)"

subsection \<open>The class\<close>

record MutexLock =
  mutex :: pthread_mutex_t
  holder :: pid_t

text \<open>
  A data member \<^verbatim>\<open>x_\<close> of a class is the field \<open>x\<close> of its record (a name cannot
  end in an underscore here). The constructor: \<^verbatim>\<open>holder_(0)\<close> and an initialised,
  free mutex.
\<close>

definition MutexLock_ctor :: MutexLock where
  "MutexLock_ctor = \<lparr>mutex = Unlocked, holder = 0\<rparr>"

definition unassignHolder :: "MutexLock \<Rightarrow> MutexLock" where
  "unassignHolder m = m\<lparr>holder := 0\<rparr>"

text \<open>
  \<^verbatim>\<open>holder_ = CurrentThread::tid()\<close>: the call may fill the caller's cache, so the
  caller's thread-local state is threaded through.
\<close>

definition assignHolder :: "pid_t \<Rightarrow> CurrentThread \<times> MutexLock \<Rightarrow> CurrentThread \<times> MutexLock" where
  "assignHolder gettid cm =
     (case cm of (ct, m) \<Rightarrow>
        (case CurrentThread_tid gettid ct of (me, ct') \<Rightarrow> (ct', m\<lparr>holder := me\<rparr>)))"

definition isLockedByThisThread :: "pid_t \<Rightarrow> CurrentThread \<times> MutexLock \<Rightarrow> bool \<times> CurrentThread" where
  "isLockedByThisThread gettid cm =
     (case cm of (ct, m) \<Rightarrow>
        (case CurrentThread_tid gettid ct of (me, ct') \<Rightarrow> (holder m = me, ct')))"

text \<open>
  \<^verbatim>\<open>assertLocked()\<close>: \<^verbatim>\<open>assert(isLockedByThisThread());\<close> With
  \<^verbatim>\<open>NDEBUG\<close> the macro expands to nothing: its argument is not evaluated, and the
  caller's identity cache stays as it is.
\<close>

definition assertLocked ::
  "build \<Rightarrow> pid_t \<Rightarrow> CurrentThread \<times> MutexLock \<Rightarrow> (unit, CurrentThread \<times> MutexLock) outcome" where
  "assertLocked b gettid cm =
     (if NDEBUG b then Returns () cm
      else (case isLockedByThisThread gettid cm of (locked, ct') \<Rightarrow>
              (if locked then Returns () (ct', snd cm)
               else Dies (AssertFail ''isLockedByThisThread()'') (ct', snd cm))))"

text \<open>
  The destructor: \<^verbatim>\<open>assert(holder_ == 0); MCHECK(pthread_mutex_destroy(&mutex_));\<close>
\<close>

definition MutexLock_dtor :: "build \<Rightarrow> MutexLock \<Rightarrow> (unit, MutexLock) outcome" where
  "MutexLock_dtor b m =
     (case assert_c b ''holder_ == 0'' (holder m = 0) of
        Some f \<Rightarrow> Dies f m
      | None \<Rightarrow>
          (case pthread_mutex_destroy (mutex m) of (errnum, mu) \<Rightarrow>
             (case MCHECK b errnum of
                Some f \<Rightarrow> Dies f (m\<lparr>mutex := mu\<rparr>)
              | None \<Rightarrow> Returns () (m\<lparr>mutex := mu\<rparr>))))"

text \<open>
  The body of a member function is the list of its statements, in the order of the source.
  A statement runs on a state and returns, kills the process, blocks, or is left by an
  exception. Called by one thread with no other thread in between, the function is its
  statements run one after the other, up to the first that does not return.
\<close>

type_synonym 's stmt = "'s \<Rightarrow> (unit, 's) outcome"

fun run_stmts :: "'s stmt list \<Rightarrow> 's \<Rightarrow> (unit, 's) outcome" where
  "run_stmts [] x = Returns () x"
| "run_stmts (st # rest) x =
     (case st x of
        Returns u x' \<Rightarrow> run_stmts rest x'
      | Dies f x' \<Rightarrow> Dies f x'
      | Blocks x' \<Rightarrow> Blocks x'
      | Rethrows x' \<Rightarrow> Rethrows x')"

text \<open>A statement on the lock alone, seen as one on the caller's thread-locals and the lock.\<close>

definition on_mutex :: "MutexLock stmt \<Rightarrow> (CurrentThread \<times> MutexLock) stmt" where
  "on_mutex st cm =
     (case cm of (ct, m) \<Rightarrow>
        (case st m of
           Returns u m' \<Rightarrow> Returns () (ct, m')
         | Dies f m' \<Rightarrow> Dies f (ct, m')
         | Blocks m' \<Rightarrow> Blocks (ct, m')
         | Rethrows m' \<Rightarrow> Rethrows (ct, m')))"

text \<open>\<^verbatim>\<open>MCHECK(pthread_mutex_lock(&mutex_));\<close>\<close>

definition lock_mutex :: "build \<Rightarrow> pid_t \<Rightarrow> MutexLock \<Rightarrow> (unit, MutexLock) outcome" where
  "lock_mutex b gettid m =
     (case pthread_mutex_lock gettid (mutex m) of
        None \<Rightarrow> Blocks m
      | Some (errnum, mu) \<Rightarrow>
          (case MCHECK b errnum of
             Some f \<Rightarrow> Dies f (m\<lparr>mutex := mu\<rparr>)
           | None \<Rightarrow> Returns () (m\<lparr>mutex := mu\<rparr>)))"

text \<open>
  \<^verbatim>\<open>lock()\<close>:
  \<^verbatim>\<open>MCHECK(pthread_mutex_lock(&mutex_)); assignHolder();\<close>
\<close>

definition lock_body :: "build \<Rightarrow> pid_t \<Rightarrow> (CurrentThread \<times> MutexLock) stmt list" where
  "lock_body b gettid =
     [on_mutex (lock_mutex b gettid),
      (\<lambda>cm. Returns () (assignHolder gettid cm))]"

definition lock :: "build \<Rightarrow> pid_t \<Rightarrow> CurrentThread \<times> MutexLock \<Rightarrow> (unit, CurrentThread \<times> MutexLock) outcome" where
  "lock b gettid cm = run_stmts (lock_body b gettid) cm"

text \<open>\<^verbatim>\<open>MCHECK(pthread_mutex_unlock(&mutex_));\<close>\<close>

definition unlock_mutex :: "build \<Rightarrow> MutexLock \<Rightarrow> (unit, MutexLock) outcome" where
  "unlock_mutex b m =
     (case pthread_mutex_unlock (mutex m) of (errnum, mu) \<Rightarrow>
        (case MCHECK b errnum of
           Some f \<Rightarrow> Dies f (m\<lparr>mutex := mu\<rparr>)
         | None \<Rightarrow> Returns () (m\<lparr>mutex := mu\<rparr>)))"

text \<open>
  \<^verbatim>\<open>unlock()\<close>:
  \<^verbatim>\<open>unassignHolder(); MCHECK(pthread_mutex_unlock(&mutex_));\<close>
\<close>

definition unlock_body :: "build \<Rightarrow> MutexLock stmt list" where
  "unlock_body b =
     [(\<lambda>m. Returns () (unassignHolder m)),
      unlock_mutex b]"

definition unlock :: "build \<Rightarrow> MutexLock \<Rightarrow> (unit, MutexLock) outcome" where
  "unlock b m = run_stmts (unlock_body b) m"

subsection \<open>UnassignGuard\<close>

text \<open>
  The constructor calls \<^verbatim>\<open>owner_.unassignHolder()\<close>, the destructor
  \<^verbatim>\<open>owner_.assignHolder()\<close>. A scope that declares the guard first runs its body
  between the two; the body either returns or leaves by an exception, and the destructor
  of a local object runs in both cases.
\<close>

definition UnassignGuard_ctor :: "MutexLock \<Rightarrow> MutexLock" where
  "UnassignGuard_ctor owner = unassignHolder owner"

definition UnassignGuard_dtor :: "pid_t \<Rightarrow> CurrentThread \<times> MutexLock \<Rightarrow> CurrentThread \<times> MutexLock" where
  "UnassignGuard_dtor gettid cm = assignHolder gettid cm"

datatype 'e scope_exit = Falls_through | Throws 'e

definition UnassignGuard_scope ::
  "pid_t \<Rightarrow> (CurrentThread \<times> MutexLock \<Rightarrow> 'e scope_exit \<times> CurrentThread \<times> MutexLock)
     \<Rightarrow> CurrentThread \<times> MutexLock \<Rightarrow> 'e scope_exit \<times> CurrentThread \<times> MutexLock" where
  "UnassignGuard_scope gettid body cm =
     (case cm of (ct, m) \<Rightarrow>
        (case body (ct, UnassignGuard_ctor m) of (ex, cm') \<Rightarrow>
           (ex, UnassignGuard_dtor gettid cm')))"

subsection \<open>MutexLockGuard and threads that share one lock\<close>

text \<open>
  The guard's constructor calls \<^verbatim>\<open>mutex_.lock()\<close>, its destructor
  \<^verbatim>\<open>mutex_.unlock()\<close>.
\<close>

definition MutexLockGuard_ctor ::
  "build \<Rightarrow> pid_t \<Rightarrow> CurrentThread \<times> MutexLock \<Rightarrow> (unit, CurrentThread \<times> MutexLock) outcome" where
  "MutexLockGuard_ctor b gettid cm = lock b gettid cm"

definition MutexLockGuard_dtor :: "build \<Rightarrow> MutexLock \<Rightarrow> (unit, MutexLock) outcome" where
  "MutexLockGuard_dtor b m = unlock b m"

text \<open>
  Any number of threads use one \<open>MutexLock\<close> through guards. Where a thread is:
  outside every guarded scope; inside \<^verbatim>\<open>lock()\<close>, so many statements of its body
  done and the next to come; in the guarded scope; inside \<^verbatim>\<open>unlock()\<close>, so many
  statements of its body done.
\<close>

datatype guard_pc = Outside | In_lock nat | In_scope | In_unlock nat

record guard_sys =
  the_lock :: MutexLock
  tls :: "pid_t \<Rightarrow> CurrentThread"
  at :: "pid_t \<Rightarrow> guard_pc"

text \<open>
  Thread \<open>t\<close>, with \<open>k\<close> statements of the body of a call done, runs the next one,
  atomically, on its own thread-locals and the shared lock. After the last statement the
  call has returned and the thread is at \<open>after\<close>, before that at \<open>inside\<close> with one
  statement more done. \<open>None\<close>: the thread cannot move now (it is blocked in
  \<^verbatim>\<open>pthread_mutex_lock\<close>), or the statement has killed the process and there is no
  next state.
\<close>

definition guard_call ::
  "(CurrentThread \<times> MutexLock) stmt list \<Rightarrow> nat \<Rightarrow> (nat \<Rightarrow> guard_pc) \<Rightarrow> guard_pc
     \<Rightarrow> pid_t \<Rightarrow> guard_sys \<Rightarrow> guard_sys option" where
  "guard_call body k inside after t s =
     (case drop k body of
        [] \<Rightarrow> Some (s\<lparr>at := (at s)(t := after)\<rparr>)
      | st # rest \<Rightarrow>
          (case st (tls s t, the_lock s) of
             Returns u cm \<Rightarrow>
               Some (s\<lparr>the_lock := snd cm, tls := (tls s)(t := fst cm),
                       at := (at s)(t := (if rest = [] then after else inside (Suc k)))\<rparr>)
           | Dies f cm \<Rightarrow> None
           | Blocks cm \<Rightarrow> None
           | Rethrows cm \<Rightarrow> None))"

text \<open>
  Thread \<open>t\<close> (named by what \<^verbatim>\<open>gettid\<close> returns in it) moves: outside, it enters a
  guarded scope, whose guard's constructor calls \<^verbatim>\<open>lock()\<close>; in the scope, it leaves
  it, and the guard's destructor calls \<^verbatim>\<open>unlock()\<close>.
\<close>

definition guard_step :: "build \<Rightarrow> pid_t \<Rightarrow> guard_sys \<Rightarrow> guard_sys option" where
  "guard_step b t s =
     (case at s t of
        Outside \<Rightarrow> guard_call (lock_body b t) 0 In_lock In_scope t s
      | In_lock k \<Rightarrow> guard_call (lock_body b t) k In_lock In_scope t s
      | In_scope \<Rightarrow> guard_call (map on_mutex (unlock_body b)) 0 In_unlock Outside t s
      | In_unlock k \<Rightarrow> guard_call (map on_mutex (unlock_body b)) k In_unlock Outside t s)"

text \<open>A schedule names the thread that moves at each step.\<close>

fun guard_run :: "build \<Rightarrow> pid_t list \<Rightarrow> guard_sys \<Rightarrow> guard_sys option" where
  "guard_run b [] s = Some s"
| "guard_run b (t # ts) s =
     (case guard_step b t s of None \<Rightarrow> None | Some s' \<Rightarrow> guard_run b ts s')"

text \<open>
  The start: a lock fresh from its constructor, every thread outside, and no thread with
  a stale identity in its cache (the cache is empty or holds the thread's own identity;
  \<^verbatim>\<open>afterFork\<close> is there to keep it so).
\<close>

definition guard_init :: "guard_sys \<Rightarrow> bool" where
  "guard_init s \<longleftrightarrow>
     the_lock s = MutexLock_ctor \<and> (\<forall>t. at s t = Outside) \<and>
     (\<forall>t. t_cachedTid (tls s t) = 0 \<or> t_cachedTid (tls s t) = t)"

subsection \<open>What holds in every state the threads can reach\<close>

text \<open>
  No identity cache is stale; a free mutex has no holder and no thread inside; a locked
  mutex has exactly its owner inside, and the holder field names the owner while the owner
  is in its guarded scope and is 0 while the owner is inside \<^verbatim>\<open>lock()\<close> or
  \<^verbatim>\<open>unlock()\<close>, between the two statements.
\<close>

definition guard_inv :: "guard_sys \<Rightarrow> bool" where
  "guard_inv s \<longleftrightarrow>
     (\<forall>t. t_cachedTid (tls s t) = 0 \<or> t_cachedTid (tls s t) = t) \<and>
     (case mutex (the_lock s) of
        Unlocked \<Rightarrow> holder (the_lock s) = 0 \<and> (\<forall>t. at s t = Outside)
      | Locked owner \<Rightarrow>
          (at s owner = In_lock (Suc 0) \<or> at s owner = In_scope \<or> at s owner = In_unlock (Suc 0)) \<and>
          (\<forall>t. t \<noteq> owner \<longrightarrow> at s t = Outside) \<and>
          holder (the_lock s) = (if at s owner = In_scope then owner else 0)
      | Destroyed \<Rightarrow> False)"

subsection \<open>Concrete inputs\<close>

text \<open>
  A build with assertions compiled in; threads none of which has used the lock yet; and a
  guarded body that scribbles on the holder field and leaves by an exception.
\<close>

definition demo_build :: build where
  "demo_build = \<lparr>NDEBUG = False, CHECK_PTHREAD_RETURN_VALUE = False\<rparr>"

definition demo_guard_sys :: guard_sys where
  "demo_guard_sys = \<lparr>the_lock = MutexLock_ctor, tls = (\<lambda>t. fresh_thread), at = (\<lambda>t. Outside)\<rparr>"

definition demo_body :: "CurrentThread \<times> MutexLock \<Rightarrow> unit scope_exit \<times> CurrentThread \<times> MutexLock" where
  "demo_body cm = (Throws (), fst cm, (snd cm)\<lparr>holder := 99\<rparr>)"

section \<open>Thread\<close>

subsection \<open>Data\<close>

text \<open>
  The user function (\<^verbatim>\<open>std::function<void()>\<close>) is known by what a call of it does:
  it returns, it throws a \<^verbatim>\<open>Lute::Exception\<close> (with its \<^verbatim>\<open>what()\<close> and
  \<^verbatim>\<open>stackTrace()\<close>), it throws another \<^verbatim>\<open>std::exception\<close> (with its
  \<^verbatim>\<open>what()\<close>), it throws something else, or it never returns. It is taken not to
  touch the \<open>Thread\<close> object, the transfer record or the latch.
\<close>

datatype ThreadFunc =
  Completes
| Throws_Exception string string   \<comment> \<open>\<^verbatim>\<open>what()\<close> and \<^verbatim>\<open>stackTrace()\<close>\<close>
| Throws_std_exception string      \<comment> \<open>\<^verbatim>\<open>what()\<close>\<close>
| Throws_other
| Never_returns

text \<open>
  Modelled from the spec: \<^verbatim>\<open>CountDownLatch\<close> is not among the sources. The spec (data
  model, glossary): ``a countdown latch of initial count 1'', ``signaled exactly once by the
  spawned thread'', ``the creator blocks on it'', ``after which all waiters proceed''. The
  latch is its count; \<^verbatim>\<open>countDown()\<close> takes one off; \<^verbatim>\<open>wait()\<close> returns when the
  count is 0 and blocks the caller until then.
\<close>

type_synonym CountDownLatch = nat

definition countDown :: "CountDownLatch \<Rightarrow> CountDownLatch" where
  "countDown c = c - 1"

definition wait :: "CountDownLatch \<Rightarrow> (unit, CountDownLatch) outcome" where
  "wait c = (if c = 0 then Returns () c else Blocks c)"

type_synonym addr = nat

datatype 'a ptr = nullptr | Ptr 'a

record Thread =
  started :: bool
  joined :: bool
  pthreadId :: nat
  tid :: pid_t
  func :: ThreadFunc
  name :: string
  latch :: CountDownLatch

text \<open>
  \<^verbatim>\<open>detail::ThreadData\<close>. Its members \<^verbatim>\<open>tid_\<close> and \<^verbatim>\<open>latch_\<close> point to the
  members \<^verbatim>\<open>tid_\<close> and \<^verbatim>\<open>latch_\<close> of a \<open>Thread\<close> object, named by the address
  of that object.
\<close>

record ThreadData =
  data_func :: ThreadFunc
  data_name :: string
  data_tid :: "addr ptr"
  data_latch :: "addr ptr"

definition ThreadData_ctor ::
  "ThreadFunc \<Rightarrow> string \<Rightarrow> addr ptr \<Rightarrow> addr ptr \<Rightarrow> ThreadData" where
  "ThreadData_ctor f n t l = \<lparr>data_func = f, data_name = n, data_tid = t, data_latch = l\<rparr>"

subsection \<open>Construction and the default name\<close>

text \<open>
  \<^verbatim>\<open>Thread::numCreated_\<close> is a \<^verbatim>\<open>std::atomic_int32_t\<close> with static storage: 0 when
  the process starts, and its arithmetic wraps. \<^verbatim>\<open>fetch_add(1)\<close> returns the value
  before the addition. The counter is threaded through; constructors that run in several
  threads take their turns on it in the order the atomic gives them.
\<close>

definition setDefaultName :: "Thread \<times> 32 word \<Rightarrow> Thread \<times> 32 word" where
  "setDefaultName tn =
     (case tn of (th, numCreated) \<Rightarrow>
        (let num = sint numCreated;
             numCreated' = numCreated + 1
         in if name th = []
            then (let (buf, n) = snprintf 32 (''Thread'' @ fmt_d num)
                  in (th\<lparr>name := c_str buf\<rparr>, numCreated'))
            else (th, numCreated')))"

definition Thread_ctor :: "ThreadFunc \<Rightarrow> string \<Rightarrow> 32 word \<Rightarrow> Thread \<times> 32 word" where
  "Thread_ctor f n numCreated =
     setDefaultName
       (\<lparr>started = False, joined = False, pthreadId = 0, tid = 0, func = f, name = n,
         latch = 1\<rparr>, numCreated)"

text \<open>Threads constructed one after the other, each from a function and a given name.\<close>

fun create_threads :: "(ThreadFunc \<times> string) list \<Rightarrow> 32 word \<Rightarrow> Thread list \<times> 32 word" where
  "create_threads [] numCreated = ([], numCreated)"
| "create_threads (fn # rest) numCreated =
     (case Thread_ctor (fst fn) (snd fn) numCreated of (th, numCreated') \<Rightarrow>
        (case create_threads rest numCreated' of (ths, numCreated'') \<Rightarrow>
           (th # ths, numCreated'')))"

subsection \<open>The process\<close>

text \<open>
  What the thread code reads and writes: the \<open>Thread\<close> objects by address, the transfer
  records on the free store (a freed cell is \<open>None\<close>), the text written to standard
  error, and a log of what was done, in order.
\<close>

datatype event =
  Publish_tid pid_t
| Count_down
| Set_threadName string
| Prctl_set_name string
| Call_func

record process =
  objs :: "addr \<Rightarrow> Thread"
  heap :: "ThreadData option list"
  stderr :: string
  trace :: "event list"

definition new_ThreadData :: "ThreadData \<Rightarrow> ThreadData option list \<Rightarrow> addr \<times> ThreadData option list" where
  "new_ThreadData d h = (length h, h @ [Some d])"

definition delete_ThreadData :: "addr \<Rightarrow> ThreadData option list \<Rightarrow> ThreadData option list" where
  "delete_ThreadData a h = h[a := None]"

definition deref :: "ThreadData option list \<Rightarrow> addr \<Rightarrow> ThreadData option" where
  "deref h a = (if a < length h then h ! a else None)"

text \<open>\<^verbatim>\<open>perror(s)\<close>: the text, a colon, the message for \<^verbatim>\<open>errno\<close>, a newline.\<close>

definition perror :: "string \<Rightarrow> string \<Rightarrow> string" where
  "perror s errno_text = c_str s @ '': '' @ errno_text @ newline"

text \<open>\<^verbatim>\<open>fprintf(stderr, "<prefix>%s\n", arg)\<close>\<close>

definition fprintf_s :: "string \<Rightarrow> string \<Rightarrow> string" where
  "fprintf_s prefix arg = prefix @ c_str arg @ newline"

subsection \<open>The trampoline\<close>

text \<open>
  \<^verbatim>\<open>ThreadData::runThread\<close>, statement by statement. The state is the thread-local
  state of the thread that runs it and the process; \<open>data\<close> is \<^verbatim>\<open>this\<close>;
  \<open>gettid\<close> is what the system call returns in this thread.

  \<^verbatim>\<open>*tid_ = Lute::CurrentThread::tid(); tid_ = nullptr;\<close>
\<close>

definition runThread_publish ::
  "pid_t \<Rightarrow> addr \<Rightarrow> CurrentThread \<times> process \<Rightarrow> (unit, CurrentThread \<times> process) outcome" where
  "runThread_publish gettid data cp =
     (case cp of (ct, p) \<Rightarrow>
        (case deref (heap p) data of
           None \<Rightarrow> Dies Segfault cp
         | Some d \<Rightarrow>
             (case data_tid d of
                nullptr \<Rightarrow> Dies Segfault cp
              | Ptr a \<Rightarrow>
                  (case CurrentThread_tid gettid ct of (me, ct') \<Rightarrow>
                     Returns ()
                       (ct', p\<lparr>objs := (objs p)(a := (objs p a)\<lparr>tid := me\<rparr>),
                              heap := (heap p)[data := Some (d\<lparr>data_tid := nullptr\<rparr>)],
                              trace := trace p @ [Publish_tid me]\<rparr>)))))"

text \<open>\<^verbatim>\<open>latch_->countDown(); latch_ = nullptr;\<close>\<close>

definition runThread_countDown ::
  "addr \<Rightarrow> CurrentThread \<times> process \<Rightarrow> (unit, CurrentThread \<times> process) outcome" where
  "runThread_countDown data cp =
     (case cp of (ct, p) \<Rightarrow>
        (case deref (heap p) data of
           None \<Rightarrow> Dies Segfault cp
         | Some d \<Rightarrow>
             (case data_latch d of
                nullptr \<Rightarrow> Dies Segfault cp
              | Ptr a \<Rightarrow>
                  Returns ()
                    (ct, p\<lparr>objs := (objs p)(a := (objs p a)\<lparr>latch := countDown (latch (objs p a))\<rparr>),
                           heap := (heap p)[data := Some (d\<lparr>data_latch := nullptr\<rparr>)],
                           trace := trace p @ [Count_down]\<rparr>))))"

text \<open>
  \<^verbatim>\<open>t_threadName = name_.empty() ? "LuteThread" : name_.c_str();\<close>
  \<^verbatim>\<open>::prctl(PR_SET_NAME, t_threadName);\<close>
  (the kernel keeps the first 15 bytes of the name it is given).
\<close>

definition runThread_setName ::
  "addr \<Rightarrow> CurrentThread \<times> process \<Rightarrow> (unit, CurrentThread \<times> process) outcome" where
  "runThread_setName data cp =
     (case cp of (ct, p) \<Rightarrow>
        (case deref (heap p) data of
           None \<Rightarrow> Dies Segfault cp
         | Some d \<Rightarrow>
             (let nm = (if data_name d = [] then ''LuteThread'' else c_str (data_name d))
              in Returns ()
                   (ct\<lparr>t_threadName := nm\<rparr>,
                    p\<lparr>trace := trace p @ [Set_threadName nm, Prctl_set_name nm]\<rparr>))))"

text \<open>The \<^verbatim>\<open>try\<close> block with its three handlers, in their order.\<close>

definition runThread_call ::
  "addr \<Rightarrow> CurrentThread \<times> process \<Rightarrow> (unit, CurrentThread \<times> process) outcome" where
  "runThread_call data cp =
     (case cp of (ct, p) \<Rightarrow>
        (case deref (heap p) data of
           None \<Rightarrow> Dies Segfault cp
         | Some d \<Rightarrow>
             (let p' = p\<lparr>trace := trace p @ [Call_func]\<rparr>
              in case data_func d of
                   Completes \<Rightarrow> Returns () (ct\<lparr>t_threadName := ''finished''\<rparr>, p')
                 | Throws_Exception what stackTrace \<Rightarrow>
                     Dies Abort
                       (ct\<lparr>t_threadName := ''crashed''\<rparr>,
                        p'\<lparr>stderr := stderr p'
                              @ fprintf_s ''exception caught in Thread '' (data_name d)
                              @ fprintf_s ''reason: '' what
                              @ fprintf_s ''stack trace: '' stackTrace\<rparr>)
                 | Throws_std_exception what \<Rightarrow>
                     Dies Abort
                       (ct\<lparr>t_threadName := ''crashed''\<rparr>,
                        p'\<lparr>stderr := stderr p'
                              @ fprintf_s ''exception caught in Thread '' (data_name d)
                              @ fprintf_s ''reason: '' what\<rparr>)
                 | Throws_other \<Rightarrow>
                     Rethrows
                       (ct\<lparr>t_threadName := ''crashed''\<rparr>,
                        p'\<lparr>stderr := stderr p'
                              @ fprintf_s ''unknown exception caught in Thread '' (data_name d)\<rparr>)
                 | Never_returns \<Rightarrow> Blocks (ct, p'))))"

text \<open>One statement after another: the second runs only if the first returns.\<close>

definition and_then ::
  "('a, 's) outcome \<Rightarrow> ('s \<Rightarrow> ('b, 's) outcome) \<Rightarrow> ('b, 's) outcome" where
  "and_then r k =
     (case r of
        Returns x s \<Rightarrow> k s
      | Dies f s \<Rightarrow> Dies f s
      | Blocks s \<Rightarrow> Blocks s
      | Rethrows s \<Rightarrow> Rethrows s)"

definition runThread_rest ::
  "addr \<Rightarrow> CurrentThread \<times> process \<Rightarrow> (unit, CurrentThread \<times> process) outcome" where
  "runThread_rest data cp = and_then (runThread_setName data cp) (runThread_call data)"

definition runThread ::
  "pid_t \<Rightarrow> addr \<Rightarrow> CurrentThread \<times> process \<Rightarrow> (unit, CurrentThread \<times> process) outcome" where
  "runThread gettid data cp =
     and_then (runThread_publish gettid data cp) (\<lambda>cp1.
     and_then (runThread_countDown data cp1) (\<lambda>cp2.
     runThread_rest data cp2))"

text \<open>
  \<^verbatim>\<open>detail::startThread\<close>: \<^verbatim>\<open>data->runThread(); delete data; return nullptr;\<close>
  It is the start routine of the thread: an exception that leaves it ends the process.
\<close>

definition startThread_delete :: "addr \<Rightarrow> CurrentThread \<times> process \<Rightarrow> CurrentThread \<times> process" where
  "startThread_delete data cp =
     (case cp of (ct, p) \<Rightarrow> (ct, p\<lparr>heap := delete_ThreadData data (heap p)\<rparr>))"

definition startThread ::
  "pid_t \<Rightarrow> addr \<Rightarrow> CurrentThread \<times> process \<Rightarrow> (unit, CurrentThread \<times> process) outcome" where
  "startThread gettid data cp =
     (case runThread gettid data cp of
        Returns u cp' \<Rightarrow> Returns () (startThread_delete data cp')
      | Dies f cp' \<Rightarrow> Dies f cp'
      | Blocks cp' \<Rightarrow> Blocks cp'
      | Rethrows cp' \<Rightarrow> Dies Terminate cp')"

subsection \<open>start and join\<close>

text \<open>
  What the operating system answers: the return value of \<^verbatim>\<open>pthread_create\<close> and, when
  it is 0, the handle of the new thread and the kernel identity of the new thread; the
  message \<^verbatim>\<open>perror\<close> finds for \<^verbatim>\<open>errno\<close>; the return value of
  \<^verbatim>\<open>pthread_join\<close>, or \<open>None\<close> when the joined thread never ends.
\<close>

record os =
  pthread_create_ret :: int
  created_pthread :: nat
  created_gettid :: pid_t
  errno_text :: string
  pthread_join_ret :: "int option"

text \<open>
  \<^verbatim>\<open>Thread::start\<close> up to the call of \<^verbatim>\<open>pthread_create\<close>:
  \<^verbatim>\<open>assert(!started_); started_ = true;\<close>
  \<^verbatim>\<open>auto* data = new detail::ThreadData(func_, name_, &tid_, &latch_);\<close>
\<close>

definition start_enter :: "build \<Rightarrow> addr \<Rightarrow> process \<Rightarrow> (addr, process) outcome" where
  "start_enter b this p =
     (case assert_c b ''!started_'' (\<not> started (objs p this)) of
        Some f \<Rightarrow> Dies f p
      | None \<Rightarrow>
          (let th = (objs p this)\<lparr>started := True\<rparr>;
               (data, h) = new_ThreadData (ThreadData_ctor (func th) (name th) (Ptr this) (Ptr this))
                             (heap p)
           in Returns data (p\<lparr>objs := (objs p)(this := th), heap := h\<rparr>)))"

text \<open>
  The branch taken when \<^verbatim>\<open>pthread_create\<close> returns non-zero:
  \<^verbatim>\<open>started_ = false; delete data; perror("Failed in pthread_create"); abort();\<close>
\<close>

definition start_create_failed :: "os \<Rightarrow> addr \<Rightarrow> addr \<Rightarrow> process \<Rightarrow> (unit, process) outcome" where
  "start_create_failed env this data p =
     (let p1 = p\<lparr>objs := (objs p)(this := (objs p this)\<lparr>started := False\<rparr>)\<rparr>;
          p2 = p1\<lparr>heap := delete_ThreadData data (heap p1)\<rparr>;
          p3 = p2\<lparr>stderr := stderr p2 @ perror ''Failed in pthread_create'' (errno_text env)\<rparr>
      in Dies Abort p3)"

text \<open>The other branch: \<^verbatim>\<open>latch_.wait(); assert(tid_ > 0);\<close>\<close>

definition start_wait :: "addr \<Rightarrow> process \<Rightarrow> (unit, process) outcome" where
  "start_wait this p =
     (case wait (latch (objs p this)) of
        Returns u c \<Rightarrow> Returns () p
      | Dies f c \<Rightarrow> Dies f p
      | Blocks c \<Rightarrow> Blocks p
      | Rethrows c \<Rightarrow> Rethrows p)"

definition start_assert :: "build \<Rightarrow> addr \<Rightarrow> process \<Rightarrow> (unit, process) outcome" where
  "start_assert b this p =
     (case assert_c b ''tid_ > 0'' (0 < tid (objs p this)) of
        Some f \<Rightarrow> Dies f p
      | None \<Rightarrow> Returns () p)"

text \<open>
  \<^verbatim>\<open>Thread::join\<close>:
  \<^verbatim>\<open>assert(started_); assert(!joined_); joined_ = true;\<close>
  \<^verbatim>\<open>return pthread_join(pthreadId_, nullptr);\<close>
\<close>

definition join :: "build \<Rightarrow> os \<Rightarrow> Thread \<Rightarrow> (int, Thread) outcome" where
  "join b env th =
     (case assert_c b ''started_'' (started th) of
        Some f \<Rightarrow> Dies f th
      | None \<Rightarrow>
          (case assert_c b ''!joined_'' (\<not> joined th) of
             Some f \<Rightarrow> Dies f th
           | None \<Rightarrow>
               (let th' = th\<lparr>joined := True\<rparr>
                in case pthread_join_ret env of
                     None \<Rightarrow> Blocks th'
                   | Some r \<Rightarrow> Returns r th')))"

subsection \<open>The thread that calls start and the thread it creates\<close>

text \<open>
  Where the caller of \<^verbatim>\<open>start()\<close> is: before its first statement; about to call
  \<^verbatim>\<open>pthread_create\<close> with the transfer record; about to call \<^verbatim>\<open>latch_.wait()\<close>;
  about to run \<^verbatim>\<open>assert(tid_ > 0)\<close>; returned.

  Where the new thread is: not created; in \<^verbatim>\<open>runThread\<close> before the statements that
  publish the identity, before those that count the latch down, before the rest; before
  \<^verbatim>\<open>delete data\<close>; ended; inside a user function that never returns.
\<close>

datatype creator_pc = C_start | C_create addr | C_wait | C_assert | C_returned

datatype spawned_pc =
  T_unborn | T_publish addr | T_countDown addr | T_rest addr | T_delete addr | T_ended | T_in_func

record start_sys =
  proc :: process
  new_tls :: CurrentThread
  creator :: creator_pc
  spawned :: spawned_pc
  died :: "fatal option"

datatype actor = Creator | Spawned

definition creator_step :: "build \<Rightarrow> os \<Rightarrow> addr \<Rightarrow> start_sys \<Rightarrow> start_sys option" where
  "creator_step b env this s =
     (case creator s of
        C_start \<Rightarrow>
          (case start_enter b this (proc s) of
             Returns data p \<Rightarrow> Some (s\<lparr>proc := p, creator := C_create data\<rparr>)
           | Dies f p \<Rightarrow> Some (s\<lparr>proc := p, died := Some f\<rparr>)
           | Blocks p \<Rightarrow> None
           | Rethrows p \<Rightarrow> None)
      | C_create data \<Rightarrow>
          (if pthread_create_ret env \<noteq> 0
           then (case start_create_failed env this data (proc s) of
                   Returns u p \<Rightarrow> Some (s\<lparr>proc := p, creator := C_returned\<rparr>)
                 | Dies f p \<Rightarrow> Some (s\<lparr>proc := p, died := Some f\<rparr>)
                 | Blocks p \<Rightarrow> None
                 | Rethrows p \<Rightarrow> None)
           else Some (s\<lparr>proc := (proc s)\<lparr>objs := (objs (proc s))
                                  (this := (objs (proc s) this)\<lparr>pthreadId := created_pthread env\<rparr>)\<rparr>,
                        new_tls := fresh_thread,
                        creator := C_wait,
                        spawned := T_publish data\<rparr>))
      | C_wait \<Rightarrow>
          (case start_wait this (proc s) of
             Returns u p \<Rightarrow> Some (s\<lparr>proc := p, creator := C_assert\<rparr>)
           | Dies f p \<Rightarrow> Some (s\<lparr>proc := p, died := Some f\<rparr>)
           | Blocks p \<Rightarrow> None
           | Rethrows p \<Rightarrow> None)
      | C_assert \<Rightarrow>
          (case start_assert b this (proc s) of
             Returns u p \<Rightarrow> Some (s\<lparr>proc := p, creator := C_returned\<rparr>)
           | Dies f p \<Rightarrow> Some (s\<lparr>proc := p, died := Some f\<rparr>)
           | Blocks p \<Rightarrow> None
           | Rethrows p \<Rightarrow> None)
      | C_returned \<Rightarrow> None)"

text \<open>
  One move of the new thread. \<open>into\<close> files the outcome of a statement: the next place
  when it returns, the death of the process, or the thread stuck in the user function.
\<close>

definition into ::
  "start_sys \<Rightarrow> spawned_pc \<Rightarrow> (unit, CurrentThread \<times> process) outcome \<Rightarrow> start_sys option" where
  "into s next r =
     (case r of
        Returns u cp \<Rightarrow> Some (s\<lparr>new_tls := fst cp, proc := snd cp, spawned := next\<rparr>)
      | Dies f cp \<Rightarrow> Some (s\<lparr>new_tls := fst cp, proc := snd cp, died := Some f\<rparr>)
      | Blocks cp \<Rightarrow> Some (s\<lparr>new_tls := fst cp, proc := snd cp, spawned := T_in_func\<rparr>)
      | Rethrows cp \<Rightarrow> Some (s\<lparr>new_tls := fst cp, proc := snd cp, died := Some Terminate\<rparr>))"

definition spawned_step :: "os \<Rightarrow> start_sys \<Rightarrow> start_sys option" where
  "spawned_step env s =
     (case spawned s of
        T_unborn \<Rightarrow> None
      | T_publish data \<Rightarrow>
          into s (T_countDown data) (runThread_publish (created_gettid env) data (new_tls s, proc s))
      | T_countDown data \<Rightarrow>
          into s (T_rest data) (runThread_countDown data (new_tls s, proc s))
      | T_rest data \<Rightarrow>
          into s (T_delete data) (runThread_rest data (new_tls s, proc s))
      | T_delete data \<Rightarrow>
          into s T_ended (Returns () (startThread_delete data (new_tls s, proc s)))
      | T_ended \<Rightarrow> None
      | T_in_func \<Rightarrow> None)"

text \<open>Nothing moves once the process has died.\<close>

definition start_step :: "build \<Rightarrow> os \<Rightarrow> addr \<Rightarrow> actor \<Rightarrow> start_sys \<Rightarrow> start_sys option" where
  "start_step b env this who s =
     (if died s \<noteq> None then None
      else case who of
             Creator \<Rightarrow> creator_step b env this s
           | Spawned \<Rightarrow> spawned_step env s)"

fun start_run :: "build \<Rightarrow> os \<Rightarrow> addr \<Rightarrow> actor list \<Rightarrow> start_sys \<Rightarrow> start_sys option" where
  "start_run b env this [] s = Some s"
| "start_run b env this (who # sched) s =
     (case start_step b env this who s of
        None \<Rightarrow> None
      | Some s' \<Rightarrow> start_run b env this sched s')"

text \<open>
  The start: the object at \<open>this\<close> is as its constructor left it, its creator is about
  to call \<^verbatim>\<open>start()\<close>, and there is no new thread yet.
\<close>

definition start_init :: "addr \<Rightarrow> start_sys \<Rightarrow> bool" where
  "start_init this s \<longleftrightarrow>
     creator s = C_start \<and> spawned s = T_unborn \<and> died s = None \<and>
     \<not> started (objs (proc s) this) \<and> \<not> joined (objs (proc s) this) \<and>
     tid (objs (proc s) this) = 0 \<and> latch (objs (proc s) this) = 1"

subsection \<open>What holds in every state the two threads can reach\<close>

text \<open>The new thread has counted the latch down.\<close>

definition past_countDown :: "spawned_pc \<Rightarrow> bool" where
  "past_countDown pc =
     (case pc of
        T_unborn \<Rightarrow> False
      | T_publish data \<Rightarrow> False
      | T_countDown data \<Rightarrow> False
      | T_rest data \<Rightarrow> True
      | T_delete data \<Rightarrow> True
      | T_ended \<Rightarrow> True
      | T_in_func \<Rightarrow> True)"

text \<open>
  With the caller before \<^verbatim>\<open>pthread_create\<close> there is no new thread and the latch
  stands at 1; the caller is past \<^verbatim>\<open>latch_.wait()\<close> only with the latch at 0, and
  past \<^verbatim>\<open>assert(tid_ > 0)\<close> only if the assertion is compiled out or held. The new
  thread before publishing has an empty identity cache and a transfer record that points
  to the object; once it has published, the object's \<^verbatim>\<open>tid_\<close> is its kernel identity;
  the latch is at 1 until it has counted down and at 0 from then on.
\<close>

definition start_inv :: "build \<Rightarrow> os \<Rightarrow> addr \<Rightarrow> start_sys \<Rightarrow> bool" where
  "start_inv b env this s \<longleftrightarrow>
     (case creator s of
        C_start \<Rightarrow> spawned s = T_unborn \<and> latch (objs (proc s) this) = 1
      | C_create data \<Rightarrow>
          spawned s = T_unborn \<and> latch (objs (proc s) this) = 1 \<and>
          (died s = None \<longrightarrow>
             (\<exists>d. deref (heap (proc s)) data = Some d \<and> data_tid d = Ptr this \<and>
                  data_latch d = Ptr this))
      | C_wait \<Rightarrow> spawned s \<noteq> T_unborn
      | C_assert \<Rightarrow> spawned s \<noteq> T_unborn \<and> latch (objs (proc s) this) = 0
      | C_returned \<Rightarrow>
          spawned s \<noteq> T_unborn \<and> latch (objs (proc s) this) = 0 \<and>
          (NDEBUG b \<or> 0 < tid (objs (proc s) this))) \<and>
     (case spawned s of
        T_unborn \<Rightarrow> True
      | T_publish data \<Rightarrow>
          pthread_create_ret env = 0 \<and> latch (objs (proc s) this) = 1 \<and>
          t_cachedTid (new_tls s) = 0 \<and>
          (\<exists>d. deref (heap (proc s)) data = Some d \<and> data_tid d = Ptr this \<and>
               data_latch d = Ptr this)
      | T_countDown data \<Rightarrow>
          pthread_create_ret env = 0 \<and> latch (objs (proc s) this) = 1 \<and>
          tid (objs (proc s) this) = created_gettid env \<and>
          Publish_tid (created_gettid env) \<in> set (trace (proc s)) \<and>
          (\<exists>d. deref (heap (proc s)) data = Some d \<and> data_latch d = Ptr this)
      | _ \<Rightarrow>
          pthread_create_ret env = 0 \<and> latch (objs (proc s) this) = 0 \<and>
          tid (objs (proc s) this) = created_gettid env \<and>
          Publish_tid (created_gettid env) \<in> set (trace (proc s)))"

text \<open>The state an outcome ends in.\<close>

definition outcome_state :: "('a, 's) outcome \<Rightarrow> 's" where
  "outcome_state r = (case r of Returns x s \<Rightarrow> s | Dies f s \<Rightarrow> s | Blocks s \<Rightarrow> s | Rethrows s \<Rightarrow> s)"

text \<open>
  The two states the caller of \<^verbatim>\<open>start()\<close> goes through when \<^verbatim>\<open>pthread_create\<close>
  fails: after the statements before the call, and after the failure branch.
\<close>

definition failed_1 :: "addr \<Rightarrow> start_sys \<Rightarrow> start_sys" where
  "failed_1 this s =
     s\<lparr>proc := (proc s)\<lparr>objs := (objs (proc s))(this := (objs (proc s) this)\<lparr>started := True\<rparr>),
                        heap := heap (proc s) @ [Some (ThreadData_ctor (func (objs (proc s) this))
                                  (name (objs (proc s) this)) (Ptr this) (Ptr this))]\<rparr>,
       creator := C_create (length (heap (proc s)))\<rparr>"

definition failed_2 :: "os \<Rightarrow> addr \<Rightarrow> start_sys \<Rightarrow> start_sys" where
  "failed_2 env this s =
     s\<lparr>proc := (proc s)\<lparr>objs := (objs (proc s))(this := (objs (proc s) this)\<lparr>started := False\<rparr>),
                        heap := heap (proc s) @ [None],
                        stderr := stderr (proc s) @ ''Failed in pthread_create: '' @ errno_text env
                                    @ newline\<rparr>,
       creator := C_create (length (heap (proc s))),
       died := Some Abort\<rparr>"

text \<open>The state in which the trampoline calls the user function.\<close>

definition before_call ::
  "pid_t \<Rightarrow> addr \<Rightarrow> ThreadData \<Rightarrow> addr \<Rightarrow> addr \<Rightarrow> CurrentThread \<times> process \<Rightarrow> CurrentThread \<times> process" where
  "before_call gettid data d a l cp =
     (case cp of (ct, p) \<Rightarrow>
        (let me = fst (CurrentThread_tid gettid ct);
             nm = (if data_name d = [] then ''LuteThread'' else c_str (data_name d));
             objs1 = (objs p)(a := (objs p a)\<lparr>tid := me\<rparr>);
             objs2 = objs1(l := (objs1 l)\<lparr>latch := countDown (latch (objs1 l))\<rparr>)
         in ((snd (CurrentThread_tid gettid ct))\<lparr>t_threadName := nm\<rparr>,
             p\<lparr>objs := objs2,
               heap := (heap p)[data := Some (d\<lparr>data_tid := nullptr, data_latch := nullptr\<rparr>)],
               trace := trace p @ [Publish_tid me, Count_down, Set_threadName nm,
                                    Prctl_set_name nm]\<rparr>)))"

subsection \<open>Concrete inputs\<close>

text \<open>
  An operating system that creates the thread and one that refuses; a process that holds a
  thread its constructor has just built (the counter at 0), with nothing on the free store;
  and that process with its creator about to call \<^verbatim>\<open>start()\<close>.
\<close>

definition demo_os :: os where
  "demo_os = \<lparr>pthread_create_ret = 0, created_pthread = 1, created_gettid = 4711,
              errno_text = ''Success'', pthread_join_ret = Some 0\<rparr>"

definition demo_os_failing :: os where
  "demo_os_failing = \<lparr>pthread_create_ret = 11, created_pthread = 0, created_gettid = 0,
              errno_text = ''Resource temporarily unavailable'', pthread_join_ret = None\<rparr>"

definition demo_process :: "ThreadFunc \<Rightarrow> string \<Rightarrow> process" where
  "demo_process f n =
     \<lparr>objs = (\<lambda>a. fst (Thread_ctor f n 0)), heap = [], stderr = [], trace = []\<rparr>"

definition demo_start_sys :: "ThreadFunc \<Rightarrow> string \<Rightarrow> start_sys" where
  "demo_start_sys f n =
     \<lparr>proc = demo_process f n, new_tls = fresh_thread, creator = C_start, spawned = T_unborn,
      died = None\<rparr>"

text \<open>
  A process whose free store holds a transfer record with an empty name, and the process
  left by the first statements of \<^verbatim>\<open>start()\<close> on a freshly constructed thread.
\<close>

definition demo_unnamed_record :: process where
  "demo_unnamed_record =
     \<lparr>objs = (\<lambda>a. fst (Thread_ctor Completes [] 0)),
      heap = [Some (ThreadData_ctor Completes [] (Ptr 0) (Ptr 0))], stderr = [], trace = []\<rparr>"

definition demo_started :: "ThreadFunc \<Rightarrow> string \<Rightarrow> process" where
  "demo_started f n = outcome_state (start_enter demo_build 0 (demo_process f n))"

text \<open>
  One more construction than the counter has values: \<open>2 ^ 32 + 1\<close> threads, each with an
  empty name. (A \<open>Thread\<close> object can be destroyed; the counter is never decremented.)
\<close>

definition demo_many_unnamed :: "(ThreadFunc \<times> string) list" where
  "demo_many_unnamed = replicate (2 ^ 32 + 1) (Completes, [])"

section \<open>Verification: the text functions\<close>

lemma c_str_no_NUL: "CHR 0x00 \<notin> set s \<Longrightarrow> c_str s = s"
  by (auto simp: c_str_def takeWhile_eq_all_conv)

lemma digit_char_value: "d < 10 \<Longrightarrow> of_char (digit_char d) = 48 + d"
  by (simp add: digit_char_def)

lemma decimal_value_snoc:
  "decimal_value (s @ [c]) = 10 * decimal_value s + (of_char c - 48)"
  by (simp add: decimal_value_def)

lemma digits10_small: "n < 10 \<Longrightarrow> digits10 n = [digit_char n]"
  by (subst digits10.simps) simp

lemma digits10_large:
  "\<not> n < 10 \<Longrightarrow> digits10 n = digits10 (n div 10) @ [digit_char (n mod 10)]"
  by (subst digits10.simps) simp

lemma decimal_value_digits10: "decimal_value (digits10 n) = n"
proof (induction n rule: digits10.induct)
  case (1 n)
  show ?case
  proof (cases "n < 10")
    case True
    then show ?thesis
      by (simp add: digits10_small decimal_value_def digit_char_value)
  next
    case False
    with 1 have ih: "decimal_value (digits10 (n div 10)) = n div 10" by simp
    have "n mod 10 < 10" by simp
    then have low: "of_char (digit_char (n mod 10)) - 48 = n mod 10"
      by (simp add: digit_char_value)
    have "decimal_value (digits10 n) = 10 * (n div 10) + n mod 10"
      by (simp only: digits10_large [OF False] decimal_value_snoc ih low)
    then show ?thesis by simp
  qed
qed

lemma digits10_inj: "digits10 m = digits10 n \<Longrightarrow> m = n"
  by (metis decimal_value_digits10)

lemma digits10_chars: "c \<in> set (digits10 n) \<Longrightarrow> \<exists>d<10. c = digit_char d"
proof (induction n rule: digits10.induct)
  case (1 n)
  show ?case
  proof (cases "n < 10")
    case True
    with "1.prems" show ?thesis by (auto simp: digits10_small)
  next
    case False
    with "1.prems" have "c \<in> set (digits10 (n div 10)) \<or> c = digit_char (n mod 10)"
      by (auto simp: digits10_large)
    then show ?thesis
    proof
      assume "c \<in> set (digits10 (n div 10))"
      with "1.IH" [OF False] show ?thesis .
    next
      assume "c = digit_char (n mod 10)"
      moreover have "n mod 10 < 10" by simp
      ultimately show ?thesis by blast
    qed
  qed
qed

lemma digits10_not_Nil: "digits10 n \<noteq> []"
  by (cases "n < 10") (simp_all add: digits10_small digits10_large)

lemma digit_char_not_minus: "d < 10 \<Longrightarrow> digit_char d \<noteq> CHR ''-''"
proof
  assume "d < 10" and "digit_char d = CHR ''-''"
  then have "of_char (CHR ''-'') = 48 + d" using digit_char_value [of d] by simp
  then show False by simp
qed

lemma digit_char_not_NUL: "d < 10 \<Longrightarrow> digit_char d \<noteq> CHR 0x00"
proof
  assume "d < 10" and "digit_char d = CHR 0x00"
  then have "of_char (CHR 0x00) = 48 + d" using digit_char_value [of d] by simp
  then show False by simp
qed

lemma digits10_length: "n < 10 ^ k \<Longrightarrow> 0 < k \<Longrightarrow> length (digits10 n) \<le> k"
proof (induction n arbitrary: k rule: digits10.induct)
  case (1 n)
  show ?case
  proof (cases "n < 10")
    case True
    with "1.prems" show ?thesis by (simp add: digits10_small)
  next
    case False
    from "1.prems" False obtain k' where k: "k = Suc k'" "0 < k'"
      by (cases k; cases "k - 1") auto
    with "1.prems" have "n div 10 < 10 ^ k'" by (simp add: less_mult_imp_div_less)
    from "1.IH" [OF False this k(2)] False k show ?thesis
      by (simp add: digits10_large)
  qed
qed

lemma digits10_no_minus: "digits10 n \<noteq> CHR ''-'' # s"
proof
  assume eq: "digits10 n = CHR ''-'' # s"
  then have "CHR ''-'' \<in> set (digits10 n)" by simp
  from digits10_chars [OF this] obtain d where "d < 10" "CHR ''-'' = digit_char d" by blast
  with digit_char_not_minus [of d] show False by simp
qed

lemma fmt_d_inj: "fmt_d i = fmt_d j \<Longrightarrow> i = j"
proof -
  assume eq: "fmt_d i = fmt_d j"
  consider (nn) "i < 0" "j < 0" | (np) "i < 0" "\<not> j < 0" | (pn) "\<not> i < 0" "j < 0"
    | (pp) "\<not> i < 0" "\<not> j < 0"
    by blast
  then show ?thesis
  proof cases
    case nn
    with eq have "digits10 (nat (- i)) = digits10 (nat (- j))" by (simp add: fmt_d_def)
    from digits10_inj [OF this] nn show ?thesis by simp
  next
    case np
    with eq have "digits10 (nat j) = CHR ''-'' # digits10 (nat (- i))" by (simp add: fmt_d_def)
    with digits10_no_minus [of "nat j" "digits10 (nat (- i))"] show ?thesis by simp
  next
    case pn
    with eq have "digits10 (nat i) = CHR ''-'' # digits10 (nat (- j))" by (simp add: fmt_d_def)
    with digits10_no_minus [of "nat i" "digits10 (nat (- j))"] show ?thesis by simp
  next
    case pp
    with eq have "digits10 (nat i) = digits10 (nat j)" by (simp add: fmt_d_def)
    from digits10_inj [OF this] pp show ?thesis by simp
  qed
qed

lemma digits10_no_NUL: "CHR 0x00 \<notin> set (digits10 n)"
proof
  assume "CHR 0x00 \<in> set (digits10 n)"
  from digits10_chars [OF this] obtain d where "d < 10" "CHR 0x00 = digit_char d" by blast
  with digit_char_not_NUL [of d] show False by simp
qed

lemma fmt_d_no_NUL: "CHR 0x00 \<notin> set (fmt_d i)"
  by (simp add: fmt_d_def digits10_no_NUL)

lemma fmt_d_length:
  assumes "\<bar>i\<bar> < 10000000000"
  shows "length (fmt_d i) \<le> 11"
proof -
  have pow: "(10::nat) ^ 10 = 10000000000" by simp
  show ?thesis
  proof (cases "i < 0")
    case True
    with assms have "nat (- i) < 10000000000" by linarith
    with pow have "nat (- i) < 10 ^ 10" by (simp only:)
    from digits10_length [OF this] have "length (digits10 (nat (- i))) \<le> 10" by simp
    with True show ?thesis by (simp add: fmt_d_def)
  next
    case False
    with assms have "nat i < 10000000000" by linarith
    with pow have "nat i < 10 ^ 10" by (simp only:)
    from digits10_length [OF this] have "length (digits10 (nat i)) \<le> 10" by simp
    with False show ?thesis by (simp add: fmt_d_def)
  qed
qed

lemma digit_char_eval:
  "digit_char 0 = CHR ''0''" "digit_char (Suc 0) = CHR ''1''" "digit_char 2 = CHR ''2''"
  unfolding digit_char_def by (simp_all add: char_of_eq_iff)

lemma fmt_d_eval: "fmt_d 0 = ''0''" "fmt_d 1 = ''1''" "fmt_d 2 = ''2''"
  by (simp_all add: fmt_d_def digits10_small digit_char_eval)

section \<open>Verification: the identity cache and MutexLock\<close>

lemma CurrentThread_tid_coherent:
  "t_cachedTid ct = 0 \<or> t_cachedTid ct = g \<Longrightarrow> fst (CurrentThread_tid g ct) = g"
  by (auto simp: CurrentThread_tid_def cacheTid_def snprintf_def Let_def)

lemma CurrentThread_tid_keeps_coherent:
  "t_cachedTid ct = 0 \<or> t_cachedTid ct = g \<Longrightarrow>
   t_cachedTid (snd (CurrentThread_tid g ct)) = 0 \<or> t_cachedTid (snd (CurrentThread_tid g ct)) = g"
  by (auto simp: CurrentThread_tid_def cacheTid_def snprintf_def Let_def)

lemma guard_init_inv: "guard_init s \<Longrightarrow> guard_inv s"
  by (simp add: guard_init_def guard_inv_def MutexLock_ctor_def)

lemma lock_mutex_Returns:
  "mutex m \<noteq> Destroyed \<Longrightarrow>
   lock_mutex b t m = Returns u m' \<longleftrightarrow> mutex m = Unlocked \<and> m' = m\<lparr>mutex := Locked t\<rparr>"
  by (cases "mutex m") (auto simp: lock_mutex_def MCHECK_def assert_c_def)

lemma unlock_mutex_Returns:
  "mutex m \<noteq> Destroyed \<Longrightarrow>
   unlock_mutex b m = Returns u m' \<longleftrightarrow> m' = m\<lparr>mutex := Unlocked\<rparr>"
  by (cases "mutex m") (auto simp: unlock_mutex_def MCHECK_def assert_c_def)

text \<open>The functions, called with no other thread in between.\<close>

lemma lock_free:
  "mutex m = Unlocked \<Longrightarrow>
   lock b t (ct, m)
     = Returns () (snd (CurrentThread_tid t ct),
                   m\<lparr>mutex := Locked t, holder := fst (CurrentThread_tid t ct)\<rparr>)"
  by (simp add: lock_def lock_body_def on_mutex_def lock_mutex_def MCHECK_def assert_c_def
      assignHolder_def split: prod.splits)

lemma lock_taken:
  "mutex m = Locked owner \<Longrightarrow> lock b t (ct, m) = Blocks (ct, m)"
  by (simp add: lock_def lock_body_def on_mutex_def lock_mutex_def)

lemma unlock_held:
  "mutex m \<noteq> Destroyed \<Longrightarrow> unlock b m = Returns () (m\<lparr>mutex := Unlocked, holder := 0\<rparr>)"
  by (cases "mutex m")
     (simp_all add: unlock_def unlock_body_def unlock_mutex_def MCHECK_def assert_c_def
        unassignHolder_def)

text \<open>The steps of a thread, by where it is.\<close>

lemma guard_step_Outside:
  "at s t = Outside \<Longrightarrow>
   guard_step b t s =
     (case lock_mutex b t (the_lock s) of
        Returns u m \<Rightarrow> Some (s\<lparr>the_lock := m, at := (at s)(t := In_lock (Suc 0))\<rparr>)
      | Dies f m \<Rightarrow> None
      | Blocks m \<Rightarrow> None
      | Rethrows m \<Rightarrow> None)"
  by (simp add: guard_step_def guard_call_def lock_body_def on_mutex_def split: outcome.splits)

lemma guard_step_In_lock:
  "at s t = In_lock (Suc 0) \<Longrightarrow>
   guard_step b t s =
     (case assignHolder t (tls s t, the_lock s) of (ct, m) \<Rightarrow>
        Some (s\<lparr>the_lock := m, tls := (tls s)(t := ct), at := (at s)(t := In_scope)\<rparr>))"
  by (simp add: guard_step_def guard_call_def lock_body_def split: prod.splits)

lemma guard_step_In_scope:
  "at s t = In_scope \<Longrightarrow>
   guard_step b t s =
     Some (s\<lparr>the_lock := unassignHolder (the_lock s), at := (at s)(t := In_unlock (Suc 0))\<rparr>)"
  by (simp add: guard_step_def guard_call_def unlock_body_def on_mutex_def)

lemma guard_step_In_unlock:
  "at s t = In_unlock (Suc 0) \<Longrightarrow>
   guard_step b t s =
     (case unlock_mutex b (the_lock s) of
        Returns u m \<Rightarrow> Some (s\<lparr>the_lock := m, at := (at s)(t := Outside)\<rparr>)
      | Dies f m \<Rightarrow> None
      | Blocks m \<Rightarrow> None
      | Rethrows m \<Rightarrow> None)"
  by (simp add: guard_step_def guard_call_def unlock_body_def on_mutex_def split: outcome.splits)

lemma guard_inv_owner:
  assumes "guard_inv s" and "at s t \<noteq> Outside"
  shows "mutex (the_lock s) = Locked t"
proof (cases "mutex (the_lock s)")
  case Unlocked
  with assms show ?thesis by (simp add: guard_inv_def)
next
  case (Locked owner)
  with assms have "t \<noteq> owner \<longrightarrow> at s t = Outside" by (simp add: guard_inv_def)
  with assms(2) Locked show ?thesis by blast
next
  case Destroyed
  with assms show ?thesis by (simp add: guard_inv_def)
qed

lemma guard_inv_at:
  assumes "guard_inv s"
  shows "at s t = Outside \<or> at s t = In_lock (Suc 0) \<or> at s t = In_scope \<or>
         at s t = In_unlock (Suc 0)"
proof (cases "at s t = Outside")
  case True
  then show ?thesis by simp
next
  case False
  from guard_inv_owner [OF assms False] assms show ?thesis by (simp add: guard_inv_def)
qed

lemma guard_inv_not_Destroyed: "guard_inv s \<Longrightarrow> mutex (the_lock s) \<noteq> Destroyed"
  by (auto simp: guard_inv_def)

lemma guard_inv_coherent:
  "guard_inv s \<Longrightarrow> t_cachedTid (tls s t) = 0 \<or> t_cachedTid (tls s t) = t"
  by (auto simp: guard_inv_def)

lemma guard_inv_others:
  "guard_inv s \<Longrightarrow> mutex (the_lock s) = Locked t \<Longrightarrow> u \<noteq> t \<Longrightarrow> at s u = Outside"
  by (auto simp: guard_inv_def)

lemma guard_inv_holder:
  "guard_inv s \<Longrightarrow> mutex (the_lock s) = Locked t \<Longrightarrow>
   holder (the_lock s) = (if at s t = In_scope then t else 0)"
  by (auto simp: guard_inv_def)

lemma guard_inv_free:
  "guard_inv s \<Longrightarrow> mutex (the_lock s) = Unlocked \<Longrightarrow> holder (the_lock s) = 0"
  by (auto simp: guard_inv_def)

lemma guard_step_cases:
  assumes "guard_inv s" and "guard_step b t s = Some s'"
  shows "(at s t = Outside \<and> mutex (the_lock s) = Unlocked \<and>
            s' = s\<lparr>the_lock := (the_lock s)\<lparr>mutex := Locked t\<rparr>,
                   at := (at s)(t := In_lock (Suc 0))\<rparr>) \<or>
         (at s t = In_lock (Suc 0) \<and>
            s' = s\<lparr>the_lock := (the_lock s)\<lparr>holder := t\<rparr>,
                   tls := (tls s)(t := snd (CurrentThread_tid t (tls s t))),
                   at := (at s)(t := In_scope)\<rparr>) \<or>
         (at s t = In_scope \<and>
            s' = s\<lparr>the_lock := (the_lock s)\<lparr>holder := 0\<rparr>,
                   at := (at s)(t := In_unlock (Suc 0))\<rparr>) \<or>
         (at s t = In_unlock (Suc 0) \<and>
            s' = s\<lparr>the_lock := (the_lock s)\<lparr>mutex := Unlocked\<rparr>, at := (at s)(t := Outside)\<rparr>)"
proof -
  note nd = guard_inv_not_Destroyed [OF assms(1)]
  note me = CurrentThread_tid_coherent [OF guard_inv_coherent [OF assms(1), of t]]
  from guard_inv_at [OF assms(1), of t] consider
      (a) "at s t = Outside" | (b) "at s t = In_lock (Suc 0)"
    | (c) "at s t = In_scope" | (d) "at s t = In_unlock (Suc 0)"
    by blast
  then show ?thesis
  proof cases
    case a
    with assms(2) nd show ?thesis
      by (auto simp: guard_step_Outside lock_mutex_Returns split: outcome.splits)
  next
    case b
    with assms(2) me show ?thesis
      by (auto simp: guard_step_In_lock assignHolder_def split: prod.splits)
  next
    case c
    with assms(2) show ?thesis
      by (auto simp: guard_step_In_scope unassignHolder_def)
  next
    case d
    with assms(2) nd show ?thesis
      by (auto simp: guard_step_In_unlock unlock_mutex_Returns split: outcome.splits)
  qed
qed

lemma guard_step_inv:
  assumes inv: "guard_inv s" and step: "guard_step b t s = Some s'"
  shows "guard_inv s'"
proof -
  note coh = guard_inv_coherent [OF inv]
  from guard_step_cases [OF inv step] consider
      (lock1) "at s t = Outside" "mutex (the_lock s) = Unlocked"
        "s' = s\<lparr>the_lock := (the_lock s)\<lparr>mutex := Locked t\<rparr>,
                at := (at s)(t := In_lock (Suc 0))\<rparr>"
    | (lock2) "at s t = In_lock (Suc 0)"
        "s' = s\<lparr>the_lock := (the_lock s)\<lparr>holder := t\<rparr>,
                tls := (tls s)(t := snd (CurrentThread_tid t (tls s t))),
                at := (at s)(t := In_scope)\<rparr>"
    | (unlock1) "at s t = In_scope"
        "s' = s\<lparr>the_lock := (the_lock s)\<lparr>holder := 0\<rparr>,
                at := (at s)(t := In_unlock (Suc 0))\<rparr>"
    | (unlock2) "at s t = In_unlock (Suc 0)"
        "s' = s\<lparr>the_lock := (the_lock s)\<lparr>mutex := Unlocked\<rparr>, at := (at s)(t := Outside)\<rparr>"
    by blast
  then show ?thesis
  proof cases
    case lock1
    with inv show ?thesis by (auto simp: guard_inv_def)
  next
    case lock2
    then have own: "mutex (the_lock s) = Locked t"
      using guard_inv_owner [OF inv, of t] by simp
    from CurrentThread_tid_keeps_coherent [OF coh [of t]] coh
    have coh': "\<forall>u. t_cachedTid (tls s' u) = 0 \<or> t_cachedTid (tls s' u) = u"
      by (simp add: lock2(2))
    from own lock2 guard_inv_others [OF inv own] coh' show ?thesis
      by (simp add: guard_inv_def)
  next
    case unlock1
    then have own: "mutex (the_lock s) = Locked t"
      using guard_inv_owner [OF inv, of t] by simp
    from own unlock1 guard_inv_others [OF inv own] coh show ?thesis
      by (simp add: guard_inv_def)
  next
    case unlock2
    then have own: "mutex (the_lock s) = Locked t"
      using guard_inv_owner [OF inv, of t] by simp
    from guard_inv_holder [OF inv own] unlock2 have "holder (the_lock s) = 0" by simp
    with own unlock2 guard_inv_others [OF inv own] coh show ?thesis
      by (auto simp: guard_inv_def)
  qed
qed

lemma guard_run_inv:
  "guard_inv s \<Longrightarrow> guard_run b sched s = Some s' \<Longrightarrow> guard_inv s'"
  by (induction sched arbitrary: s) (auto split: option.splits dest: guard_step_inv)

text \<open>
  The two steps a thread takes from outside are its call of \<^verbatim>\<open>lock()\<close>, the two it
  takes from its guarded scope are its call of \<^verbatim>\<open>unlock()\<close>; a thread outside does
  not move while another thread owns the mutex.
\<close>

lemma guard_lock_steps:
  assumes inv: "guard_inv s" and out: "at s t = Outside" and free: "mutex (the_lock s) = Unlocked"
  shows "lock b t (tls s t, the_lock s)
           = Returns () (snd (CurrentThread_tid t (tls s t)), \<lparr>mutex = Locked t, holder = t\<rparr>)"
    and "guard_run b [t, t] s
           = Some (s\<lparr>the_lock := \<lparr>mutex = Locked t, holder = t\<rparr>,
                     tls := (tls s)(t := snd (CurrentThread_tid t (tls s t))),
                     at := (at s)(t := In_scope)\<rparr>)"
proof -
  note me = CurrentThread_tid_coherent [OF guard_inv_coherent [OF inv, of t]]
  have m: "(the_lock s)\<lparr>mutex := Locked t, holder := t\<rparr> = \<lparr>mutex = Locked t, holder = t\<rparr>"
    by simp
  from lock_free [OF free, of b t "tls s t"] me m
  show "lock b t (tls s t, the_lock s)
           = Returns () (snd (CurrentThread_tid t (tls s t)), \<lparr>mutex = Locked t, holder = t\<rparr>)"
    by simp
  let ?s1 = "s\<lparr>the_lock := (the_lock s)\<lparr>mutex := Locked t\<rparr>, at := (at s)(t := In_lock (Suc 0))\<rparr>"
  from out free have one: "guard_step b t s = Some ?s1"
    by (simp add: guard_step_Outside lock_mutex_def MCHECK_def assert_c_def)
  have "at ?s1 t = In_lock (Suc 0)" by simp
  from guard_step_In_lock [OF this, of b] me m
  have two: "guard_step b t ?s1
           = Some (s\<lparr>the_lock := \<lparr>mutex = Locked t, holder = t\<rparr>,
                     tls := (tls s)(t := snd (CurrentThread_tid t (tls s t))),
                     at := (at s)(t := In_scope)\<rparr>)"
    by (simp add: assignHolder_def split: prod.splits)
  from one two
  show "guard_run b [t, t] s
           = Some (s\<lparr>the_lock := \<lparr>mutex = Locked t, holder = t\<rparr>,
                     tls := (tls s)(t := snd (CurrentThread_tid t (tls s t))),
                     at := (at s)(t := In_scope)\<rparr>)"
    by simp
qed

lemma guard_lock_waits:
  assumes inv: "guard_inv s" and out: "at s t = Outside" and held: "mutex (the_lock s) \<noteq> Unlocked"
  shows "lock b t (tls s t, the_lock s) = Blocks (tls s t, the_lock s)"
    and "guard_step b t s = None"
proof -
  from held guard_inv_not_Destroyed [OF inv] obtain owner
    where own: "mutex (the_lock s) = Locked owner"
    by (cases "mutex (the_lock s)") auto
  from lock_taken [OF own]
  show "lock b t (tls s t, the_lock s) = Blocks (tls s t, the_lock s)" .
  from out own show "guard_step b t s = None"
    by (simp add: guard_step_Outside lock_mutex_def)
qed

lemma guard_unlock_steps:
  assumes inv: "guard_inv s" and ins: "at s t = In_scope"
  shows "unlock b (the_lock s) = Returns () \<lparr>mutex = Unlocked, holder = 0\<rparr>"
    and "guard_run b [t, t] s
           = Some (s\<lparr>the_lock := \<lparr>mutex = Unlocked, holder = 0\<rparr>, at := (at s)(t := Outside)\<rparr>)"
proof -
  have m: "(the_lock s)\<lparr>mutex := Unlocked, holder := 0\<rparr> = \<lparr>mutex = Unlocked, holder = 0\<rparr>"
    by simp
  from unlock_held [OF guard_inv_not_Destroyed [OF inv], of b] m
  show "unlock b (the_lock s) = Returns () \<lparr>mutex = Unlocked, holder = 0\<rparr>"
    by simp
  let ?s1 = "s\<lparr>the_lock := unassignHolder (the_lock s), at := (at s)(t := In_unlock (Suc 0))\<rparr>"
  from ins have one: "guard_step b t s = Some ?s1"
    by (simp add: guard_step_In_scope)
  have at1: "at ?s1 t = In_unlock (Suc 0)" by simp
  from guard_inv_owner [OF inv, of t] ins have own: "mutex (the_lock s) = Locked t" by simp
  from guard_step_In_unlock [OF at1, of b] own m
  have two: "guard_step b t ?s1
           = Some (s\<lparr>the_lock := \<lparr>mutex = Unlocked, holder = 0\<rparr>, at := (at s)(t := Outside)\<rparr>)"
    by (simp add: unlock_mutex_def unassignHolder_def MCHECK_def assert_c_def)
  from one two
  show "guard_run b [t, t] s
           = Some (s\<lparr>the_lock := \<lparr>mutex = Unlocked, holder = 0\<rparr>, at := (at s)(t := Outside)\<rparr>)"
    by simp
qed

lemma guard_run_append:
  "guard_run b (xs @ ys) s = (case guard_run b xs s of None \<Rightarrow> None | Some s' \<Rightarrow> guard_run b ys s')"
  by (induction xs arbitrary: s) (auto split: option.splits)

lemma guard_handover:
  assumes inv: "guard_inv s" and ins: "at s t = In_scope" and other: "u \<noteq> t"
  shows "guard_step b u s = None"
    and "\<exists>s'. guard_run b [t, t, u, u] s = Some s' \<and> at s' u = In_scope \<and>
               holder (the_lock s') = u \<and> mutex (the_lock s') = Locked u"
proof -
  from guard_inv_owner [OF inv, of t] ins have own: "mutex (the_lock s) = Locked t" by simp
  from guard_inv_others [OF inv own other] have out: "at s u = Outside" .
  from own have held: "mutex (the_lock s) \<noteq> Unlocked" by simp
  from guard_lock_waits(2) [OF inv out held] show "guard_step b u s = None" .
  let ?s2 = "s\<lparr>the_lock := \<lparr>mutex = Unlocked, holder = 0\<rparr>, at := (at s)(t := Outside)\<rparr>"
  have r1: "guard_run b [t, t] s = Some ?s2"
    using guard_unlock_steps(2) [OF inv ins] .
  have inv2: "guard_inv ?s2"
    using guard_run_inv [OF inv r1] .
  have out2: "at ?s2 u = Outside" using out other by simp
  have free2: "mutex (the_lock ?s2) = Unlocked" by simp
  let ?s4 = "?s2\<lparr>the_lock := \<lparr>mutex = Locked u, holder = u\<rparr>,
                   tls := (tls ?s2)(u := snd (CurrentThread_tid u (tls ?s2 u))),
                   at := (at ?s2)(u := In_scope)\<rparr>"
  have r2: "guard_run b [u, u] ?s2 = Some ?s4"
    using guard_lock_steps(2) [OF inv2 out2 free2] .
  have "guard_run b ([t, t] @ [u, u]) s = Some ?s4"
    unfolding guard_run_append using r1 r2 by simp
  then have "guard_run b [t, t, u, u] s = Some ?s4" by simp
  moreover have "at ?s4 u = In_scope \<and> holder (the_lock ?s4) = u \<and>
                 mutex (the_lock ?s4) = Locked u"
    by simp
  ultimately show "\<exists>s'. guard_run b [t, t, u, u] s = Some s' \<and> at s' u = In_scope \<and>
               holder (the_lock s') = u \<and> mutex (the_lock s') = Locked u"
    by blast
qed

lemmas demo_defs = demo_build_def demo_guard_sys_def guard_step_def guard_call_def lock_body_def
  unlock_body_def on_mutex_def lock_mutex_def unlock_mutex_def
  MCHECK_def assert_c_def assignHolder_def unassignHolder_def CurrentThread_tid_def cacheTid_def
  snprintf_def fresh_thread_def MutexLock_ctor_def

text \<open>
  Claim C2. Threads use one lock through guards, under any schedule, each statement of
  \<^verbatim>\<open>lock()\<close> and \<^verbatim>\<open>unlock()\<close> a step of its own. In every state they can reach:
  a free mutex has holder 0, and a thread in its guarded scope (its \<^verbatim>\<open>lock()\<close> has
  returned) owns the mutex and is the holder. Each statement does what the order in the
  source says. \<^verbatim>\<open>lock()\<close>: the first statement takes the free mutex and leaves the
  holder 0, the second sets the holder to the caller, with the mutex already the caller's.
  \<^verbatim>\<open>unlock()\<close>: the first statement clears the holder while the mutex is still the
  caller's, the second frees the mutex, the holder being 0 before and after. The two steps
  of a thread outside, the mutex free, are its \<^verbatim>\<open>lock()\<close>, which returns with the
  caller as holder; with the mutex not free \<^verbatim>\<open>lock()\<close> blocks and the thread does
  not move. The two steps of a thread in its scope are its \<^verbatim>\<open>unlock()\<close>, which
  returns with the mutex free and the holder 0; another thread, which waits until then,
  takes the lock next and is the holder when its \<^verbatim>\<open>lock()\<close> has returned.
\<close>

theorem lock_then_assign_unassign_then_unlock:
  assumes init: "guard_init s0" and run: "guard_run b sched s0 = Some s"
  shows "(mutex (the_lock s) = Unlocked \<longrightarrow> holder (the_lock s) = 0) \<and>
         (\<forall>t. at s t = In_scope \<longrightarrow> mutex (the_lock s) = Locked t \<and> holder (the_lock s) = t) \<and>
         (\<forall>t s'. guard_step b t s = Some s' \<longrightarrow>
            (case at s t of
               Outside \<Rightarrow> mutex (the_lock s) = Unlocked \<and> mutex (the_lock s') = Locked t \<and>
                          holder (the_lock s') = 0 \<and> at s' t = In_lock (Suc 0)
             | In_lock k \<Rightarrow> k = Suc 0 \<and> mutex (the_lock s) = Locked t \<and>
                          mutex (the_lock s') = Locked t \<and>
                          holder (the_lock s') = t \<and> at s' t = In_scope
             | In_scope \<Rightarrow> holder (the_lock s) = t \<and> holder (the_lock s') = 0 \<and>
                          mutex (the_lock s') = Locked t \<and> at s' t = In_unlock (Suc 0)
             | In_unlock k \<Rightarrow> k = Suc 0 \<and> mutex (the_lock s) = Locked t \<and>
                          holder (the_lock s) = 0 \<and>
                          mutex (the_lock s') = Unlocked \<and> holder (the_lock s') = 0 \<and>
                          at s' t = Outside)) \<and>
         (\<forall>t. at s t = Outside \<and> mutex (the_lock s) = Unlocked \<longrightarrow>
            lock b t (tls s t, the_lock s)
              = Returns () (snd (CurrentThread_tid t (tls s t)), \<lparr>mutex = Locked t, holder = t\<rparr>) \<and>
            guard_run b [t, t] s
              = Some (s\<lparr>the_lock := \<lparr>mutex = Locked t, holder = t\<rparr>,
                        tls := (tls s)(t := snd (CurrentThread_tid t (tls s t))),
                        at := (at s)(t := In_scope)\<rparr>)) \<and>
         (\<forall>t. at s t = Outside \<and> mutex (the_lock s) \<noteq> Unlocked \<longrightarrow>
            lock b t (tls s t, the_lock s) = Blocks (tls s t, the_lock s) \<and>
            guard_step b t s = None) \<and>
         (\<forall>t. at s t = In_scope \<longrightarrow>
            unlock b (the_lock s) = Returns () \<lparr>mutex = Unlocked, holder = 0\<rparr> \<and>
            guard_run b [t, t] s
              = Some (s\<lparr>the_lock := \<lparr>mutex = Unlocked, holder = 0\<rparr>,
                        at := (at s)(t := Outside)\<rparr>)) \<and>
         (\<forall>t u. at s t = In_scope \<and> u \<noteq> t \<longrightarrow>
            guard_step b u s = None \<and>
            (\<exists>s'. guard_run b [t, t, u, u] s = Some s' \<and> at s' u = In_scope \<and>
                   holder (the_lock s') = u \<and> mutex (the_lock s') = Locked u))"
proof -
  have inv: "guard_inv s"
    using guard_run_inv [OF guard_init_inv [OF init] run] .
  have free: "mutex (the_lock s) = Unlocked \<longrightarrow> holder (the_lock s) = 0"
    using guard_inv_free [OF inv] by simp
  have scope: "mutex (the_lock s) = Locked t \<and> holder (the_lock s) = t" if "at s t = In_scope" for t
    using guard_inv_owner [OF inv, of t] guard_inv_holder [OF inv, of t] that by simp
  have step: "case at s t of
               Outside \<Rightarrow> mutex (the_lock s) = Unlocked \<and> mutex (the_lock s') = Locked t \<and>
                          holder (the_lock s') = 0 \<and> at s' t = In_lock (Suc 0)
             | In_lock k \<Rightarrow> k = Suc 0 \<and> mutex (the_lock s) = Locked t \<and>
                          mutex (the_lock s') = Locked t \<and>
                          holder (the_lock s') = t \<and> at s' t = In_scope
             | In_scope \<Rightarrow> holder (the_lock s) = t \<and> holder (the_lock s') = 0 \<and>
                          mutex (the_lock s') = Locked t \<and> at s' t = In_unlock (Suc 0)
             | In_unlock k \<Rightarrow> k = Suc 0 \<and> mutex (the_lock s) = Locked t \<and>
                          holder (the_lock s) = 0 \<and>
                          mutex (the_lock s') = Unlocked \<and> holder (the_lock s') = 0 \<and>
                          at s' t = Outside"
    if st: "guard_step b t s = Some s'" for t s'
  proof -
    from guard_step_cases [OF inv st] consider
        (lock1) "at s t = Outside" "mutex (the_lock s) = Unlocked"
          "s' = s\<lparr>the_lock := (the_lock s)\<lparr>mutex := Locked t\<rparr>,
                  at := (at s)(t := In_lock (Suc 0))\<rparr>"
      | (lock2) "at s t = In_lock (Suc 0)"
          "s' = s\<lparr>the_lock := (the_lock s)\<lparr>holder := t\<rparr>,
                  tls := (tls s)(t := snd (CurrentThread_tid t (tls s t))),
                  at := (at s)(t := In_scope)\<rparr>"
      | (unlock1) "at s t = In_scope"
          "s' = s\<lparr>the_lock := (the_lock s)\<lparr>holder := 0\<rparr>,
                  at := (at s)(t := In_unlock (Suc 0))\<rparr>"
      | (unlock2) "at s t = In_unlock (Suc 0)"
          "s' = s\<lparr>the_lock := (the_lock s)\<lparr>mutex := Unlocked\<rparr>, at := (at s)(t := Outside)\<rparr>"
      by blast
    then show ?thesis
    proof cases
      case lock1
      with free show ?thesis by simp
    next
      case lock2
      with guard_inv_owner [OF inv, of t] show ?thesis by simp
    next
      case unlock1
      with scope [of t] show ?thesis by simp
    next
      case unlock2
      with guard_inv_owner [OF inv, of t] guard_inv_holder [OF inv, of t] show ?thesis by simp
    qed
  qed
  have acquire: "\<forall>t. at s t = Outside \<and> mutex (the_lock s) = Unlocked \<longrightarrow>
            lock b t (tls s t, the_lock s)
              = Returns () (snd (CurrentThread_tid t (tls s t)), \<lparr>mutex = Locked t, holder = t\<rparr>) \<and>
            guard_run b [t, t] s
              = Some (s\<lparr>the_lock := \<lparr>mutex = Locked t, holder = t\<rparr>,
                        tls := (tls s)(t := snd (CurrentThread_tid t (tls s t))),
                        at := (at s)(t := In_scope)\<rparr>)"
  proof (intro allI impI conjI)
    fix t assume a: "at s t = Outside \<and> mutex (the_lock s) = Unlocked"
    note out = a [THEN conjunct1] and fr = a [THEN conjunct2]
    show "lock b t (tls s t, the_lock s)
              = Returns () (snd (CurrentThread_tid t (tls s t)), \<lparr>mutex = Locked t, holder = t\<rparr>)"
      by (rule guard_lock_steps(1) [OF inv out fr])
    show "guard_run b [t, t] s
              = Some (s\<lparr>the_lock := \<lparr>mutex = Locked t, holder = t\<rparr>,
                        tls := (tls s)(t := snd (CurrentThread_tid t (tls s t))),
                        at := (at s)(t := In_scope)\<rparr>)"
      by (rule guard_lock_steps(2) [OF inv out fr])
  qed
  have waits: "\<forall>t. at s t = Outside \<and> mutex (the_lock s) \<noteq> Unlocked \<longrightarrow>
            lock b t (tls s t, the_lock s) = Blocks (tls s t, the_lock s) \<and>
            guard_step b t s = None"
  proof (intro allI impI conjI)
    fix t assume a: "at s t = Outside \<and> mutex (the_lock s) \<noteq> Unlocked"
    note out = a [THEN conjunct1] and held = a [THEN conjunct2]
    show "lock b t (tls s t, the_lock s) = Blocks (tls s t, the_lock s)"
      by (rule guard_lock_waits(1) [OF inv out held])
    show "guard_step b t s = None"
      by (rule guard_lock_waits(2) [OF inv out held])
  qed
  have release: "\<forall>t. at s t = In_scope \<longrightarrow>
            unlock b (the_lock s) = Returns () \<lparr>mutex = Unlocked, holder = 0\<rparr> \<and>
            guard_run b [t, t] s
              = Some (s\<lparr>the_lock := \<lparr>mutex = Unlocked, holder = 0\<rparr>,
                        at := (at s)(t := Outside)\<rparr>)"
  proof (intro allI impI conjI)
    fix t assume ins: "at s t = In_scope"
    show "unlock b (the_lock s) = Returns () \<lparr>mutex = Unlocked, holder = 0\<rparr>"
      by (rule guard_unlock_steps(1) [OF inv ins])
    show "guard_run b [t, t] s
              = Some (s\<lparr>the_lock := \<lparr>mutex = Unlocked, holder = 0\<rparr>,
                        at := (at s)(t := Outside)\<rparr>)"
      by (rule guard_unlock_steps(2) [OF inv ins])
  qed
  have handover: "\<forall>t u. at s t = In_scope \<and> u \<noteq> t \<longrightarrow>
            guard_step b u s = None \<and>
            (\<exists>s'. guard_run b [t, t, u, u] s = Some s' \<and> at s' u = In_scope \<and>
                   holder (the_lock s') = u \<and> mutex (the_lock s') = Locked u)"
  proof (intro allI impI conjI)
    fix t u assume a: "at s t = In_scope \<and> u \<noteq> t"
    note ins = a [THEN conjunct1] and other = a [THEN conjunct2]
    show "guard_step b u s = None"
      by (rule guard_handover(1) [OF inv ins other])
    show "\<exists>s'. guard_run b [t, t, u, u] s = Some s' \<and> at s' u = In_scope \<and>
                   holder (the_lock s') = u \<and> mutex (the_lock s') = Locked u"
      by (rule guard_handover(2) [OF inv ins other])
  qed
  have scope': "\<forall>t. at s t = In_scope \<longrightarrow>
                  mutex (the_lock s) = Locked t \<and> holder (the_lock s) = t"
    using scope by (intro allI impI)
  have step': "\<forall>t s'. guard_step b t s = Some s' \<longrightarrow>
            (case at s t of
               Outside \<Rightarrow> mutex (the_lock s) = Unlocked \<and> mutex (the_lock s') = Locked t \<and>
                          holder (the_lock s') = 0 \<and> at s' t = In_lock (Suc 0)
             | In_lock k \<Rightarrow> k = Suc 0 \<and> mutex (the_lock s) = Locked t \<and>
                          mutex (the_lock s') = Locked t \<and>
                          holder (the_lock s') = t \<and> at s' t = In_scope
             | In_scope \<Rightarrow> holder (the_lock s) = t \<and> holder (the_lock s') = 0 \<and>
                          mutex (the_lock s') = Locked t \<and> at s' t = In_unlock (Suc 0)
             | In_unlock k \<Rightarrow> k = Suc 0 \<and> mutex (the_lock s) = Locked t \<and>
                          holder (the_lock s) = 0 \<and>
                          mutex (the_lock s') = Unlocked \<and> holder (the_lock s') = 0 \<and>
                          at s' t = Outside)"
    using step by (intro allI impI)
  from free scope' step' acquire waits release handover show ?thesis
    by (intro conjI)
qed

theorem lock_then_assign_unassign_then_unlock_witness:
  "guard_init demo_guard_sys \<and>
   (\<exists>s. guard_run demo_build [7, 7] demo_guard_sys = Some s \<and>
      at s 7 = In_scope \<and> mutex (the_lock s) = Locked 7 \<and> holder (the_lock s) = 7 \<and>
      unlock demo_build (the_lock s) = Returns () \<lparr>mutex = Unlocked, holder = 0\<rparr> \<and>
      guard_step demo_build 8 s = None \<and>
      (\<exists>s'. guard_run demo_build [7, 7, 8, 8] s = Some s' \<and> at s' 8 = In_scope \<and>
             holder (the_lock s') = 8 \<and> mutex (the_lock s') = Locked 8))"
proof -
  have init: "guard_init demo_guard_sys"
    by (simp add: guard_init_def demo_guard_sys_def fresh_thread_def)
  obtain s where run: "guard_run demo_build [7, 7] demo_guard_sys = Some s"
    and at: "at s 7 = In_scope"
    by (simp add: demo_defs)
  note c2 = lock_then_assign_unassign_then_unlock [OF init run]
  from c2 at have own: "mutex (the_lock s) = Locked 7 \<and> holder (the_lock s) = 7"
    by blast
  from c2 at
  have rel: "unlock demo_build (the_lock s) = Returns () \<lparr>mutex = Unlocked, holder = 0\<rparr>"
    by blast
  have "at s 7 = In_scope \<and> (8::int) \<noteq> 7" using at by simp
  with c2
  have hand: "guard_step demo_build 8 s = None \<and>
      (\<exists>s'. guard_run demo_build [7, 7, 8, 8] s = Some s' \<and> at s' 8 = In_scope \<and>
             holder (the_lock s') = 8 \<and> mutex (the_lock s') = Locked 8)"
    by blast
  from init run at own rel hand show ?thesis by blast
qed

text \<open>
  Claim C5. With \<^verbatim>\<open>assert\<close> compiled in, the destructor of a lock whose holder is
  not 0 dies on \<^verbatim>\<open>assert(holder_ == 0)\<close> and leaves the lock untouched: the pthread
  mutex is not destroyed. The destructor returns only if the holder is 0, and with the
  holder 0 and the mutex free it destroys the mutex. A lock that \<^verbatim>\<open>lock()\<close> has just
  returned to a thread (whose identity is not 0) is one the destructor dies on.
\<close>

theorem MutexLock_dtor_asserts_unowned:
  assumes "\<not> NDEBUG b"
  shows "(holder m \<noteq> 0 \<longrightarrow> MutexLock_dtor b m = Dies (AssertFail ''holder_ == 0'') m) \<and>
         (holder m = 0 \<and> mutex m = Unlocked \<longrightarrow>
            MutexLock_dtor b m = Returns () (m\<lparr>mutex := Destroyed\<rparr>)) \<and>
         (\<forall>m'. MutexLock_dtor b m = Returns () m' \<longrightarrow> holder m = 0) \<and>
         (\<forall>f m'. MutexLock_dtor b m = Dies f m' \<and> holder m \<noteq> 0 \<longrightarrow> m' = m) \<and>
         (\<forall>ct ct' m0. lock b t (ct, m0) = Returns () (ct', m) \<and> fst (CurrentThread_tid t ct) \<noteq> 0
            \<longrightarrow> MutexLock_dtor b m = Dies (AssertFail ''holder_ == 0'') m)"
  using assms
  by (auto simp: MutexLock_dtor_def assert_c_def MCHECK_def lock_def lock_body_def on_mutex_def
      lock_mutex_def assignHolder_def
      split: prod.splits option.splits outcome.splits if_splits)

theorem MutexLock_dtor_asserts_unowned_witness:
  "\<not> NDEBUG demo_build \<and>
   lock demo_build 7 (fresh_thread, MutexLock_ctor)
     = Returns () (snd (CurrentThread_tid 7 fresh_thread), \<lparr>mutex = Locked 7, holder = 7\<rparr>) \<and>
   MutexLock_dtor demo_build \<lparr>mutex = Locked 7, holder = 7\<rparr>
     = Dies (AssertFail ''holder_ == 0'') \<lparr>mutex = Locked 7, holder = 7\<rparr> \<and>
   MutexLock_dtor demo_build MutexLock_ctor = Returns () \<lparr>mutex = Destroyed, holder = 0\<rparr>"
proof -
  have nd: "\<not> NDEBUG demo_build" by (simp add: demo_build_def)
  have l: "lock demo_build 7 (fresh_thread, MutexLock_ctor)
     = Returns () (snd (CurrentThread_tid 7 fresh_thread), \<lparr>mutex = Locked 7, holder = 7\<rparr>)"
    by (simp add: lock_def lock_body_def on_mutex_def lock_mutex_def MutexLock_ctor_def MCHECK_def
        assert_c_def demo_build_def assignHolder_def CurrentThread_tid_def cacheTid_def
        fresh_thread_def snprintf_def split: prod.splits)
  from MutexLock_dtor_asserts_unowned [OF nd, of "\<lparr>mutex = Locked 7, holder = 7\<rparr>" 7]
       MutexLock_dtor_asserts_unowned [OF nd, of MutexLock_ctor 7] nd l
  show ?thesis by (simp add: MutexLock_ctor_def)
qed

text \<open>
  Claim C9. The constructor of \<open>UnassignGuard\<close> sets the holder to 0. Whatever the
  guarded body does to the lock and however it leaves (by falling through or by an
  exception), the scope ends with the holder set to \<^verbatim>\<open>CurrentThread::tid()\<close> of the
  calling thread, which is the thread's kernel identity when its cache is not stale.
\<close>

theorem UnassignGuard_clears_then_restores:
  assumes body: "body (ct, UnassignGuard_ctor m) = (ex, ct', m')"
  shows "holder (UnassignGuard_ctor m) = 0 \<and>
         UnassignGuard_scope gettid body (ct, m)
           = (ex, snd (CurrentThread_tid gettid ct'),
              m'\<lparr>holder := fst (CurrentThread_tid gettid ct')\<rparr>) \<and>
         (t_cachedTid ct' = 0 \<or> t_cachedTid ct' = gettid \<longrightarrow>
            holder (snd (snd (UnassignGuard_scope gettid body (ct, m)))) = gettid)"
proof -
  have cleared: "holder (UnassignGuard_ctor m) = 0"
    by (simp add: UnassignGuard_ctor_def unassignHolder_def)
  have scope: "UnassignGuard_scope gettid body (ct, m)
           = (ex, snd (CurrentThread_tid gettid ct'),
              m'\<lparr>holder := fst (CurrentThread_tid gettid ct')\<rparr>)"
    using body
    by (simp add: UnassignGuard_scope_def UnassignGuard_dtor_def assignHolder_def
        split: prod.splits)
  have "holder (snd (snd (UnassignGuard_scope gettid body (ct, m)))) = gettid"
    if "t_cachedTid ct' = 0 \<or> t_cachedTid ct' = gettid"
    using that scope by (simp add: CurrentThread_tid_coherent)
  with cleared scope show ?thesis by blast
qed

theorem UnassignGuard_clears_then_restores_witness:
  "holder (snd (snd (UnassignGuard_scope 7 demo_body
      (fresh_thread, \<lparr>mutex = Locked 7, holder = 7\<rparr>)))) = 7"
proof -
  have body: "demo_body (fresh_thread, UnassignGuard_ctor \<lparr>mutex = Locked 7, holder = 7\<rparr>)
              = (Throws (), fresh_thread, \<lparr>mutex = Locked 7, holder = 99\<rparr>)"
    by (simp add: demo_body_def UnassignGuard_ctor_def unassignHolder_def)
  have fresh: "t_cachedTid fresh_thread = 0 \<or> t_cachedTid fresh_thread = 7"
    by (simp add: fresh_thread_def)
  from UnassignGuard_clears_then_restores [of demo_body, OF body, of 7] fresh
  show ?thesis by blast
qed

section \<open>Verification: start, join and the trampoline\<close>

lemma start_enter_fresh:
  assumes "\<not> started (objs p this)"
  shows "start_enter b this p =
           Returns (length (heap p))
             (p\<lparr>objs := (objs p)(this := (objs p this)\<lparr>started := True\<rparr>),
                heap := heap p @ [Some (ThreadData_ctor (func (objs p this)) (name (objs p this))
                                          (Ptr this) (Ptr this))]\<rparr>)"
  using assms by (simp add: start_enter_def assert_c_def new_ThreadData_def)

lemma start_run_died: "died s \<noteq> None \<Longrightarrow> start_run b env this sched s = Some s' \<Longrightarrow> sched = [] \<and> s' = s"
  by (cases sched) (auto simp: start_step_def)

lemma CurrentThread_tid_uncached:
  "t_cachedTid ct = 0 \<Longrightarrow> fst (CurrentThread_tid g ct) = g"
  by (simp add: CurrentThread_tid_def cacheTid_def snprintf_def Let_def)

lemma deref_update: "deref h a = Some d \<Longrightarrow> deref (h[a := x]) a = x"
  by (auto simp: deref_def split: if_splits)

lemma deref_new: "deref (h @ [x]) (length h) = x"
  by (simp add: deref_def)

lemma start_init_inv: "start_init this s \<Longrightarrow> start_inv b env this s"
  by (simp add: start_init_def start_inv_def)

lemma creator_step_inv:
  assumes "start_inv b env this s" and "died s = None" and "creator_step b env this s = Some s'"
  shows "start_inv b env this s'"
proof (cases "creator s")
  case C_start
  with assms show ?thesis
    by (auto simp: start_inv_def creator_step_def start_enter_def assert_c_def new_ThreadData_def
        deref_new ThreadData_ctor_def split: if_splits)
next
  case (C_create data)
  with assms show ?thesis
    by (auto simp: start_inv_def creator_step_def start_create_failed_def fresh_thread_def
        split: if_splits)
next
  case C_wait
  with assms show ?thesis
    by (cases "spawned s")
       (auto simp: start_inv_def creator_step_def start_wait_def wait_def split: if_splits)
next
  case C_assert
  with assms show ?thesis
    by (cases "spawned s")
       (auto simp: start_inv_def creator_step_def start_assert_def assert_c_def split: if_splits)
next
  case C_returned
  with assms show ?thesis by (simp add: creator_step_def)
qed

lemma into_cases:
  assumes "into s next r = Some s'"
  obtains (returns) u cp where "r = Returns u cp"
      "s' = s\<lparr>new_tls := fst cp, proc := snd cp, spawned := next\<rparr>"
    | (dies) f cp where "r = Dies f cp"
      "s' = s\<lparr>new_tls := fst cp, proc := snd cp, died := Some f\<rparr>"
    | (blocks) cp where "r = Blocks cp"
      "s' = s\<lparr>new_tls := fst cp, proc := snd cp, spawned := T_in_func\<rparr>"
    | (rethrows) cp where "r = Rethrows cp"
      "s' = s\<lparr>new_tls := fst cp, proc := snd cp, died := Some Terminate\<rparr>"
  using assms by (auto simp: into_def split: outcome.splits)

lemma runThread_rest_frame:
  "objs (snd (outcome_state (runThread_rest data (ct, p)))) = objs p \<and>
   set (trace p) \<subseteq> set (trace (snd (outcome_state (runThread_rest data (ct, p)))))"
  by (auto simp: runThread_rest_def runThread_setName_def runThread_call_def and_then_def
      outcome_state_def Let_def split: option.splits ThreadFunc.splits)

lemma runThread_publish_ok:
  assumes "deref (heap p) data = Some d" and "data_tid d = Ptr a"
  shows "runThread_publish g data (ct, p) =
        Returns ()
          (snd (CurrentThread_tid g ct),
           p\<lparr>objs := (objs p)(a := (objs p a)\<lparr>tid := fst (CurrentThread_tid g ct)\<rparr>),
             heap := (heap p)[data := Some (d\<lparr>data_tid := nullptr\<rparr>)],
             trace := trace p @ [Publish_tid (fst (CurrentThread_tid g ct))]\<rparr>)"
  using assms by (simp add: runThread_publish_def split: prod.splits)

lemma runThread_countDown_ok:
  assumes "deref (heap p) data = Some d" and "data_latch d = Ptr a"
  shows "runThread_countDown data (ct, p) =
        Returns ()
          (ct,
           p\<lparr>objs := (objs p)(a := (objs p a)\<lparr>latch := countDown (latch (objs p a))\<rparr>),
             heap := (heap p)[data := Some (d\<lparr>data_latch := nullptr\<rparr>)],
             trace := trace p @ [Count_down]\<rparr>)"
  using assms by (simp add: runThread_countDown_def)

lemma start_inv_T_publish:
  assumes "start_inv b env this s" and "spawned s = T_publish data"
  shows "creator s = C_wait \<and> pthread_create_ret env = 0 \<and> latch (objs (proc s) this) = 1 \<and>
         t_cachedTid (new_tls s) = 0 \<and>
         (\<exists>d. deref (heap (proc s)) data = Some d \<and> data_tid d = Ptr this \<and>
              data_latch d = Ptr this)"
  using assms by (cases "creator s") (auto simp: start_inv_def)

lemma start_inv_T_countDown:
  assumes "start_inv b env this s" and "spawned s = T_countDown data"
  shows "creator s = C_wait \<and> pthread_create_ret env = 0 \<and> latch (objs (proc s) this) = 1 \<and>
         tid (objs (proc s) this) = created_gettid env \<and>
         Publish_tid (created_gettid env) \<in> set (trace (proc s)) \<and>
         (\<exists>d. deref (heap (proc s)) data = Some d \<and> data_latch d = Ptr this)"
  using assms by (cases "creator s") (auto simp: start_inv_def)

lemma start_inv_frame:
  assumes inv: "start_inv b env this s" and past: "past_countDown (spawned s)"
    and past': "past_countDown pc'"
    and objs: "objs p' = objs (proc s)" and trace: "set (trace (proc s)) \<subseteq> set (trace p')"
  shows "start_inv b env this (s\<lparr>new_tls := ct', proc := p', spawned := pc'\<rparr>) \<and>
         start_inv b env this (s\<lparr>new_tls := ct', proc := p', died := x\<rparr>)"
proof -
  from inv past have sp: "pthread_create_ret env = 0 \<and> latch (objs (proc s) this) = 0 \<and>
          tid (objs (proc s) this) = created_gettid env \<and>
          Publish_tid (created_gettid env) \<in> set (trace (proc s))"
    by (cases "spawned s") (simp_all add: start_inv_def past_countDown_def)
  from inv past have cr: "creator s = C_wait \<or> creator s = C_assert \<or>
      creator s = C_returned \<and> (NDEBUG b \<or> 0 < tid (objs (proc s) this))"
    by (cases "creator s") (auto simp: start_inv_def past_countDown_def)
  from sp trace have tr: "Publish_tid (created_gettid env) \<in> set (trace p')" by blast
  from past' have ne: "pc' \<noteq> T_unborn" by (auto simp: past_countDown_def)
  have one: "start_inv b env this (s\<lparr>new_tls := ct', proc := p', spawned := pc'\<rparr>)"
    using sp cr tr ne past' objs
    by (cases pc') (auto simp: start_inv_def past_countDown_def)
  have two: "start_inv b env this (s\<lparr>new_tls := ct', proc := p', died := x\<rparr>)"
    using sp cr tr past objs
    by (cases "spawned s") (auto simp: start_inv_def past_countDown_def)
  from one two show ?thesis ..
qed

lemma spawned_step_inv:
  assumes inv: "start_inv b env this s" and step: "spawned_step env s = Some s'"
  shows "start_inv b env this s'"
proof (cases "spawned s")
  case T_unborn
  with step show ?thesis by (simp add: spawned_step_def)
next
  case (T_publish data)
  from start_inv_T_publish [OF inv T_publish]
  obtain d where d: "deref (heap (proc s)) data = Some d" "data_tid d = Ptr this"
      "data_latch d = Ptr this"
    and facts: "pthread_create_ret env = 0" "latch (objs (proc s) this) = 1"
      "t_cachedTid (new_tls s) = 0" "creator s = C_wait"
    by blast
  from step T_publish
  have "s' = s\<lparr>new_tls := snd (CurrentThread_tid (created_gettid env) (new_tls s)),
               proc := (proc s)\<lparr>objs := (objs (proc s))(this := (objs (proc s) this)\<lparr>tid := created_gettid env\<rparr>),
                  heap := (heap (proc s))[data := Some (d\<lparr>data_tid := nullptr\<rparr>)],
                  trace := trace (proc s) @ [Publish_tid (created_gettid env)]\<rparr>,
               spawned := T_countDown data\<rparr>"
    by (simp add: spawned_step_def into_def runThread_publish_ok [OF d(1,2)]
        CurrentThread_tid_uncached [OF facts(3)])
  with d facts show ?thesis
    by (simp add: start_inv_def deref_update)
next
  case (T_countDown data)
  from start_inv_T_countDown [OF inv T_countDown]
  obtain d where d: "deref (heap (proc s)) data = Some d" "data_latch d = Ptr this"
    and facts: "pthread_create_ret env = 0" "latch (objs (proc s) this) = 1"
      "tid (objs (proc s) this) = created_gettid env"
      "Publish_tid (created_gettid env) \<in> set (trace (proc s))" "creator s = C_wait"
    by blast
  from step T_countDown
  have "s' = s\<lparr>new_tls := new_tls s,
               proc := (proc s)\<lparr>objs := (objs (proc s))(this := (objs (proc s) this)\<lparr>latch := 0\<rparr>),
                  heap := (heap (proc s))[data := Some (d\<lparr>data_latch := nullptr\<rparr>)],
                  trace := trace (proc s) @ [Count_down]\<rparr>,
               spawned := T_rest data\<rparr>"
    by (simp add: spawned_step_def into_def runThread_countDown_ok [OF d] countDown_def facts(2))
  with d facts show ?thesis
    by (simp add: start_inv_def)
next
  case (T_rest data)
  from step T_rest
  have i: "into s (T_delete data) (runThread_rest data (new_tls s, proc s)) = Some s'"
    by (simp add: spawned_step_def)
  from runThread_rest_frame [of data "new_tls s" "proc s"]
  have fr: "objs (snd (outcome_state (runThread_rest data (new_tls s, proc s)))) = objs (proc s)"
    "set (trace (proc s)) \<subseteq> set (trace (snd (outcome_state (runThread_rest data (new_tls s, proc s)))))"
    by simp_all
  have past: "past_countDown (spawned s)" by (simp add: T_rest past_countDown_def)
  have p1: "past_countDown (T_delete data)" and p2: "past_countDown T_in_func"
    by (simp_all add: past_countDown_def)
  from i show ?thesis
  proof (cases rule: into_cases)
    case (returns u cp)
    with fr start_inv_frame [OF inv past p1, of "snd cp" "fst cp"] show ?thesis
      by (simp add: outcome_state_def)
  next
    case (dies f cp)
    with fr start_inv_frame [OF inv past p1, of "snd cp" "fst cp" "Some f"] show ?thesis
      by (simp add: outcome_state_def)
  next
    case (blocks cp)
    with fr start_inv_frame [OF inv past p2, of "snd cp" "fst cp"] show ?thesis
      by (simp add: outcome_state_def)
  next
    case (rethrows cp)
    with fr start_inv_frame [OF inv past p1, of "snd cp" "fst cp" "Some Terminate"] show ?thesis
      by (simp add: outcome_state_def)
  qed
next
  case (T_delete data)
  have past: "past_countDown (spawned s)" by (simp add: T_delete past_countDown_def)
  have p1: "past_countDown T_ended" by (simp add: past_countDown_def)
  from step T_delete
  have "s' = s\<lparr>new_tls := new_tls s,
               proc := (proc s)\<lparr>heap := delete_ThreadData data (heap (proc s))\<rparr>,
               spawned := T_ended\<rparr>"
    by (simp add: spawned_step_def into_def startThread_delete_def)
  with start_inv_frame [OF inv past p1,
      of "(proc s)\<lparr>heap := delete_ThreadData data (heap (proc s))\<rparr>" "new_tls s"]
  show ?thesis by simp
next
  case T_ended
  with step show ?thesis by (simp add: spawned_step_def)
next
  case T_in_func
  with step show ?thesis by (simp add: spawned_step_def)
qed

lemma start_step_inv:
  assumes inv: "start_inv b env this s" and step: "start_step b env this who s = Some s'"
  shows "start_inv b env this s'"
proof -
  from step have alive: "died s = None"
    by (simp add: start_step_def split: if_splits)
  show ?thesis
  proof (cases who)
    case Creator
    with step alive have "creator_step b env this s = Some s'" by (simp add: start_step_def)
    from creator_step_inv [OF inv alive this] show ?thesis .
  next
    case Spawned
    with step alive have "spawned_step env s = Some s'" by (simp add: start_step_def)
    from spawned_step_inv [OF inv this] show ?thesis .
  qed
qed

lemma start_run_inv:
  "start_inv b env this s \<Longrightarrow> start_run b env this sched s = Some s' \<Longrightarrow> start_inv b env this s'"
proof (induction sched arbitrary: s)
  case Nil
  then show ?case by simp
next
  case (Cons who sched)
  from Cons.prems(2) obtain s1 where s1: "start_step b env this who s = Some s1"
    and rest: "start_run b env this sched s1 = Some s'"
    by (auto split: option.splits)
  from Cons.IH [OF start_step_inv [OF Cons.prems(1) s1] rest] show ?case .
qed

lemma start_inv_past:
  assumes "start_inv b env this s" and "past_countDown (spawned s)"
  shows "pthread_create_ret env = 0 \<and> latch (objs (proc s) this) = 0 \<and>
         tid (objs (proc s) this) = created_gettid env \<and>
         Publish_tid (created_gettid env) \<in> set (trace (proc s))"
  using assms by (cases "spawned s") (simp_all add: start_inv_def past_countDown_def)

lemma start_inv_not_past:
  assumes "start_inv b env this s" and "\<not> past_countDown (spawned s)" and "creator s = C_wait"
  shows "latch (objs (proc s) this) = 1"
  using assms by (cases "spawned s") (simp_all add: start_inv_def past_countDown_def)

lemma start_inv_after_wait:
  assumes "start_inv b env this s" and "creator s = C_assert \<or> creator s = C_returned"
  shows "past_countDown (spawned s)"
  using assms by (cases "spawned s") (auto simp: start_inv_def past_countDown_def)

lemma progress_enter:
  assumes "start_init this s"
  shows "\<exists>s'. start_step b env this Creator s = Some s' \<and> died s' = None \<and>
              creator s' = C_create (length (heap (proc s))) \<and> spawned s' = T_unborn"
  using assms
  by (simp add: start_init_def start_step_def creator_step_def start_enter_fresh)

lemma progress_create:
  assumes "creator s = C_create data" and "died s = None" and "pthread_create_ret env = 0"
  shows "\<exists>s'. start_step b env this Creator s = Some s' \<and> died s' = None \<and>
              creator s' = C_wait \<and> spawned s' = T_publish data"
  using assms by (simp add: start_step_def creator_step_def)

lemma progress_publish:
  assumes inv: "start_inv b env this s" and at: "spawned s = T_publish data" and "died s = None"
  shows "\<exists>s'. start_step b env this Spawned s = Some s' \<and> died s' = None \<and>
              creator s' = C_wait \<and> spawned s' = T_countDown data"
proof -
  from start_inv_T_publish [OF inv at]
  obtain d where d: "deref (heap (proc s)) data = Some d" "data_tid d = Ptr this"
    and c: "creator s = C_wait"
    by blast
  with assms show ?thesis
    by (simp add: start_step_def spawned_step_def into_def runThread_publish_ok [OF d])
qed

lemma progress_countDown:
  assumes inv: "start_inv b env this s" and at: "spawned s = T_countDown data" and "died s = None"
  shows "\<exists>s'. start_step b env this Spawned s = Some s' \<and> died s' = None \<and>
              creator s' = C_wait \<and> spawned s' = T_rest data"
proof -
  from start_inv_T_countDown [OF inv at]
  obtain d where d: "deref (heap (proc s)) data = Some d" "data_latch d = Ptr this"
    and c: "creator s = C_wait"
    by blast
  with assms show ?thesis
    by (simp add: start_step_def spawned_step_def into_def runThread_countDown_ok [OF d])
qed

lemma progress_wait:
  assumes inv: "start_inv b env this s" and "creator s = C_wait" and "died s = None"
    and past: "past_countDown (spawned s)"
  shows "\<exists>s'. start_step b env this Creator s = Some s' \<and> died s' = None \<and>
              creator s' = C_assert \<and> spawned s' = spawned s \<and> proc s' = proc s"
  using assms start_inv_past [OF inv past]
  by (simp add: start_step_def creator_step_def start_wait_def wait_def)

lemma blocked_wait:
  assumes inv: "start_inv b env this s" and "creator s = C_wait"
    and "\<not> past_countDown (spawned s)"
  shows "start_step b env this Creator s = None"
  using assms start_inv_not_past [OF inv]
  by (simp add: start_step_def creator_step_def start_wait_def wait_def)

lemma progress_assert:
  assumes inv: "start_inv b env this s" and c: "creator s = C_assert" and "died s = None"
    and ok: "NDEBUG b \<or> 0 < created_gettid env"
  shows "\<exists>s'. start_step b env this Creator s = Some s' \<and> died s' = None \<and>
              creator s' = C_returned \<and> proc s' = proc s"
proof -
  from start_inv_after_wait [OF inv] c have "past_countDown (spawned s)" by simp
  from start_inv_past [OF inv this] assms show ?thesis
    by (auto simp: start_step_def creator_step_def start_assert_def assert_c_def)
qed

lemma start_can_return:
  assumes init: "start_init this s0" and ok: "pthread_create_ret env = 0"
    and pos: "NDEBUG b \<or> 0 < created_gettid env"
  shows "\<exists>s. start_run b env this [Creator, Creator, Spawned, Spawned, Creator, Creator] s0 = Some s \<and>
             creator s = C_returned \<and> died s = None"
proof -
  note inv0 = start_init_inv [OF init, of b env]
  from progress_enter [OF init, of b env] obtain s1 data
    where s1: "start_step b env this Creator s0 = Some s1" "died s1 = None"
      "creator s1 = C_create data"
    by blast
  note inv1 = start_step_inv [OF inv0 s1(1)]
  from progress_create [OF s1(3) s1(2) ok, of b this] obtain s2
    where s2: "start_step b env this Creator s1 = Some s2" "died s2 = None"
      "spawned s2 = T_publish data"
    by blast
  note inv2 = start_step_inv [OF inv1 s2(1)]
  from progress_publish [OF inv2 s2(3) s2(2)] obtain s3
    where s3: "start_step b env this Spawned s2 = Some s3" "died s3 = None"
      "spawned s3 = T_countDown data"
    by blast
  note inv3 = start_step_inv [OF inv2 s3(1)]
  from progress_countDown [OF inv3 s3(3) s3(2)] obtain s4
    where s4: "start_step b env this Spawned s3 = Some s4" "died s4 = None"
      "creator s4 = C_wait" "spawned s4 = T_rest data"
    by blast
  note inv4 = start_step_inv [OF inv3 s4(1)]
  have "past_countDown (spawned s4)" by (simp add: s4(4) past_countDown_def)
  from progress_wait [OF inv4 s4(3) s4(2) this] obtain s5
    where s5: "start_step b env this Creator s4 = Some s5" "died s5 = None"
      "creator s5 = C_assert"
    by blast
  note inv5 = start_step_inv [OF inv4 s5(1)]
  from progress_assert [OF inv5 s5(3) s5(2) pos] obtain s6
    where s6: "start_step b env this Creator s5 = Some s6" "died s6 = None"
      "creator s6 = C_returned"
    by blast
  from s1 s2 s3 s4 s5 s6 show ?thesis by simp
qed

text \<open>
  The four steps of the new thread are \<^verbatim>\<open>startThread\<close>, and an object that its
  constructor has just built is one on which \<^verbatim>\<open>start()\<close> may begin.
\<close>

lemma spawned_steps_are_startThread:
  assumes at: "spawned s = T_publish data" and alive: "died s = None"
    and r: "startThread (created_gettid env) data (new_tls s, proc s) = Returns () (ct, p)"
  shows "start_run b env this [Spawned, Spawned, Spawned, Spawned] s
           = Some (s\<lparr>new_tls := ct, proc := p, spawned := T_ended\<rparr>)"
proof -
  from r obtain cp3 where run: "runThread (created_gettid env) data (new_tls s, proc s) = Returns () cp3"
    and del: "startThread_delete data cp3 = (ct, p)"
    by (auto simp: startThread_def split: outcome.splits)
  from run obtain cp1 cp2 where
    p1: "runThread_publish (created_gettid env) data (new_tls s, proc s) = Returns () cp1"
    and p2: "runThread_countDown data cp1 = Returns () cp2"
    and p3: "runThread_rest data cp2 = Returns () cp3"
    by (auto simp: runThread_def and_then_def split: outcome.splits)
  let ?s1 = "s\<lparr>new_tls := fst cp1, proc := snd cp1, spawned := T_countDown data\<rparr>"
  let ?s2 = "s\<lparr>new_tls := fst cp2, proc := snd cp2, spawned := T_rest data\<rparr>"
  let ?s3 = "s\<lparr>new_tls := fst cp3, proc := snd cp3, spawned := T_delete data\<rparr>"
  from at alive p1 have "start_step b env this Spawned s = Some ?s1"
    by (simp add: start_step_def spawned_step_def into_def)
  moreover from alive p2 have "start_step b env this Spawned ?s1 = Some ?s2"
    by (simp add: start_step_def spawned_step_def into_def)
  moreover from alive p3 have "start_step b env this Spawned ?s2 = Some ?s3"
    by (simp add: start_step_def spawned_step_def into_def)
  moreover from alive del
  have "start_step b env this Spawned ?s3 = Some (s\<lparr>new_tls := ct, proc := p, spawned := T_ended\<rparr>)"
    by (simp add: start_step_def spawned_step_def into_def)
  ultimately show ?thesis by simp
qed

lemma Thread_ctor_start_init:
  assumes "objs (proc s) this = fst (Thread_ctor f n numCreated)"
    and "creator s = C_start" and "spawned s = T_unborn" and "died s = None"
  shows "start_init this s"
  using assms
  by (simp add: start_init_def Thread_ctor_def setDefaultName_def Let_def split_beta)

text \<open>
  Claim C1. The caller of \<^verbatim>\<open>start()\<close> and the thread it creates run interleaved in any
  order, each statement atomic. Whenever \<^verbatim>\<open>start()\<close> has returned, the new thread
  has published its identity and counted the latch down: the object's \<^verbatim>\<open>tid_\<close> is the
  kernel identity of the new thread, and it is positive (with \<^verbatim>\<open>assert\<close> compiled in
  because \<^verbatim>\<open>assert(tid_ > 0)\<close> has passed; without it, as far as the kernel hands out
  positive identities). The caller waits on the latch: before the new thread has counted
  down, the caller at \<^verbatim>\<open>latch_.wait()\<close> cannot move, and once it has, the caller moves
  on. When \<^verbatim>\<open>pthread_create\<close> succeeds there is a schedule under which
  \<^verbatim>\<open>start()\<close> returns.
\<close>

theorem start_returns_after_identity_published:
  assumes init: "start_init this s0" and run: "start_run b env this sched s0 = Some s"
  shows "(creator s = C_returned \<longrightarrow>
            past_countDown (spawned s) \<and> latch (objs (proc s) this) = 0 \<and>
            tid (objs (proc s) this) = created_gettid env \<and>
            Publish_tid (created_gettid env) \<in> set (trace (proc s)) \<and>
            (\<not> NDEBUG b \<or> 0 < created_gettid env \<longrightarrow> 0 < tid (objs (proc s) this))) \<and>
         (creator s = C_wait \<and> \<not> past_countDown (spawned s) \<longrightarrow>
            start_step b env this Creator s = None) \<and>
         (creator s = C_wait \<and> past_countDown (spawned s) \<and> died s = None \<longrightarrow>
            (\<exists>s'. start_step b env this Creator s = Some s' \<and> creator s' = C_assert)) \<and>
         (pthread_create_ret env = 0 \<and> (NDEBUG b \<or> 0 < created_gettid env) \<longrightarrow>
            (\<exists>s'. start_run b env this [Creator, Creator, Spawned, Spawned, Creator, Creator] s0
                    = Some s' \<and> creator s' = C_returned))"
proof -
  have inv: "start_inv b env this s"
    using start_run_inv [OF start_init_inv [OF init] run] .
  have returned: "past_countDown (spawned s) \<and> latch (objs (proc s) this) = 0 \<and>
            tid (objs (proc s) this) = created_gettid env \<and>
            Publish_tid (created_gettid env) \<in> set (trace (proc s)) \<and>
            (\<not> NDEBUG b \<or> 0 < created_gettid env \<longrightarrow> 0 < tid (objs (proc s) this))"
    if c: "creator s = C_returned"
  proof -
    from start_inv_after_wait [OF inv] c have past: "past_countDown (spawned s)" by simp
    from inv c have "NDEBUG b \<or> 0 < tid (objs (proc s) this)" by (simp add: start_inv_def)
    with past start_inv_past [OF inv past] show ?thesis by auto
  qed
  have blocked: "start_step b env this Creator s = None"
    if "creator s = C_wait \<and> \<not> past_countDown (spawned s)"
    using blocked_wait [OF inv] that by simp
  have wakes: "\<exists>s'. start_step b env this Creator s = Some s' \<and> creator s' = C_assert"
    if w: "creator s = C_wait \<and> past_countDown (spawned s) \<and> died s = None"
  proof -
    from w have "creator s = C_wait" "died s = None" "past_countDown (spawned s)" by simp_all
    from progress_wait [OF inv this] show ?thesis by blast
  qed
  have can: "\<exists>s'. start_run b env this [Creator, Creator, Spawned, Spawned, Creator, Creator] s0
                    = Some s' \<and> creator s' = C_returned"
    if w: "pthread_create_ret env = 0 \<and> (NDEBUG b \<or> 0 < created_gettid env)"
  proof -
    from w have "pthread_create_ret env = 0" "NDEBUG b \<or> 0 < created_gettid env" by simp_all
    from start_can_return [OF init this] show ?thesis by blast
  qed
  from returned blocked wakes can show ?thesis by blast
qed

theorem start_returns_after_identity_published_witness:
  "start_init 0 (demo_start_sys Completes ''worker'') \<and>
   start_run demo_build demo_os 0 [Creator, Creator, Creator] (demo_start_sys Completes ''worker'')
     = None \<and>
   (\<exists>s. start_run demo_build demo_os 0 [Creator, Creator, Spawned, Spawned, Creator, Creator]
           (demo_start_sys Completes ''worker'') = Some s \<and>
        creator s = C_returned \<and> tid (objs (proc s) 0) = 4711 \<and> 0 < tid (objs (proc s) 0) \<and>
        latch (objs (proc s) 0) = 0)"
proof -
  have init: "start_init 0 (demo_start_sys Completes ''worker'')"
    by (simp add: start_init_def demo_start_sys_def demo_process_def Thread_ctor_def
        setDefaultName_def)
  have blocked: "start_run demo_build demo_os 0 [Creator, Creator, Creator]
                   (demo_start_sys Completes ''worker'') = None"
    by (simp add: start_step_def creator_step_def start_enter_def assert_c_def new_ThreadData_def
        start_wait_def wait_def demo_build_def demo_os_def demo_start_sys_def demo_process_def
        Thread_ctor_def setDefaultName_def)
  have idle: "start_run demo_build demo_os 0 [] (demo_start_sys Completes ''worker'')
                   = Some (demo_start_sys Completes ''worker'')"
    by simp
  have env: "pthread_create_ret demo_os = 0 \<and> (NDEBUG demo_build \<or> 0 < created_gettid demo_os)"
    by (simp add: demo_os_def)
  from start_returns_after_identity_published [OF init idle]
  have "pthread_create_ret demo_os = 0 \<and> (NDEBUG demo_build \<or> 0 < created_gettid demo_os) \<longrightarrow>
        (\<exists>s'. start_run demo_build demo_os 0 [Creator, Creator, Spawned, Spawned, Creator, Creator]
               (demo_start_sys Completes ''worker'') = Some s' \<and> creator s' = C_returned)"
    by (elim conjE)
  with env obtain s where run: "start_run demo_build demo_os 0
        [Creator, Creator, Spawned, Spawned, Creator, Creator]
        (demo_start_sys Completes ''worker'') = Some s"
    and ret: "creator s = C_returned"
    by blast
  from start_returns_after_identity_published [OF init run]
  have "creator s = C_returned \<longrightarrow>
            past_countDown (spawned s) \<and> latch (objs (proc s) 0) = 0 \<and>
            tid (objs (proc s) 0) = created_gettid demo_os \<and>
            Publish_tid (created_gettid demo_os) \<in> set (trace (proc s)) \<and>
            (\<not> NDEBUG demo_build \<or> 0 < created_gettid demo_os \<longrightarrow> 0 < tid (objs (proc s) 0))"
    by (elim conjE)
  with ret
  have "latch (objs (proc s) 0) = 0 \<and> tid (objs (proc s) 0) = created_gettid demo_os \<and>
        (\<not> NDEBUG demo_build \<or> 0 < created_gettid demo_os \<longrightarrow> 0 < tid (objs (proc s) 0))"
    by blast
  then have "tid (objs (proc s) 0) = 4711 \<and> 0 < tid (objs (proc s) 0) \<and> latch (objs (proc s) 0) = 0"
    by (simp add: demo_os_def demo_build_def)
  with init blocked run ret show ?thesis by blast
qed

text \<open>
  Claim C6. With \<^verbatim>\<open>assert\<close> compiled in: \<^verbatim>\<open>start()\<close> on a started object dies
  on \<^verbatim>\<open>assert(!started_)\<close>; on an object not started it sets \<^verbatim>\<open>started_\<close>, after
  which a second \<^verbatim>\<open>start()\<close> dies; \<^verbatim>\<open>join()\<close> on an object not started dies on
  \<^verbatim>\<open>assert(started_)\<close>, on a joined one on \<^verbatim>\<open>assert(!joined_)\<close>; on a started
  object not yet joined it sets \<^verbatim>\<open>joined_\<close> and gives what \<^verbatim>\<open>pthread_join\<close>
  gives, after which a second \<^verbatim>\<open>join()\<close> dies.
\<close>

theorem lifecycle_assertions:
  assumes "\<not> NDEBUG b"
  shows "(started (objs p this) \<longrightarrow> start_enter b this p = Dies (AssertFail ''!started_'') p) \<and>
         (\<not> started (objs p this) \<longrightarrow>
            (\<exists>data p'. start_enter b this p = Returns data p' \<and> started (objs p' this) \<and>
               start_enter b this p' = Dies (AssertFail ''!started_'') p')) \<and>
         (\<not> started th \<longrightarrow> join b env th = Dies (AssertFail ''started_'') th) \<and>
         (started th \<and> joined th \<longrightarrow> join b env th = Dies (AssertFail ''!joined_'') th) \<and>
         (started th \<and> \<not> joined th \<longrightarrow>
            join b env th = (case pthread_join_ret env of
                               None \<Rightarrow> Blocks (th\<lparr>joined := True\<rparr>)
                             | Some r \<Rightarrow> Returns r (th\<lparr>joined := True\<rparr>)) \<and>
            join b env' (th\<lparr>joined := True\<rparr>)
              = Dies (AssertFail ''!joined_'') (th\<lparr>joined := True\<rparr>))"
  using assms
  by (auto simp: start_enter_def join_def assert_c_def new_ThreadData_def Let_def
      split: option.splits)

theorem lifecycle_assertions_witness:
  "\<not> NDEBUG demo_build \<and>
   start_enter demo_build 0 (demo_process Completes ''worker'')
     = Returns 0 ((demo_process Completes ''worker'')
         \<lparr>objs := (objs (demo_process Completes ''worker''))
                    (0 := (fst (Thread_ctor Completes ''worker'' 0))\<lparr>started := True\<rparr>),
          heap := [Some (ThreadData_ctor Completes ''worker'' (Ptr 0) (Ptr 0))]\<rparr>) \<and>
   join demo_build demo_os (fst (Thread_ctor Completes ''worker'' 0))
     = Dies (AssertFail ''started_'') (fst (Thread_ctor Completes ''worker'' 0)) \<and>
   join demo_build demo_os ((fst (Thread_ctor Completes ''worker'' 0))\<lparr>started := True\<rparr>)
     = Returns 0 ((fst (Thread_ctor Completes ''worker'' 0))\<lparr>started := True, joined := True\<rparr>) \<and>
   join demo_build demo_os
       ((fst (Thread_ctor Completes ''worker'' 0))\<lparr>started := True, joined := True\<rparr>)
     = Dies (AssertFail ''!joined_'')
         ((fst (Thread_ctor Completes ''worker'' 0))\<lparr>started := True, joined := True\<rparr>)"
proof -
  have nd: "\<not> NDEBUG demo_build" by (simp add: demo_build_def)
  have ctor: "fst (Thread_ctor Completes ''worker'' 0)
      = \<lparr>started = False, joined = False, pthreadId = 0, tid = 0, func = Completes,
         name = ''worker'', latch = 1\<rparr>"
    by (simp add: Thread_ctor_def setDefaultName_def)
  have enter: "start_enter demo_build 0 (demo_process Completes ''worker'')
     = Returns 0 ((demo_process Completes ''worker'')
         \<lparr>objs := (objs (demo_process Completes ''worker''))
                    (0 := (fst (Thread_ctor Completes ''worker'' 0))\<lparr>started := True\<rparr>),
          heap := [Some (ThreadData_ctor Completes ''worker'' (Ptr 0) (Ptr 0))]\<rparr>)"
    by (simp add: start_enter_def assert_c_def demo_build_def demo_process_def ctor
        new_ThreadData_def)
  from lifecycle_assertions [OF nd, of "demo_process Completes ''worker''" 0
      "fst (Thread_ctor Completes ''worker'' 0)" demo_os demo_os]
    lifecycle_assertions [OF nd, of "demo_process Completes ''worker''" 0
      "(fst (Thread_ctor Completes ''worker'' 0))\<lparr>started := True\<rparr>" demo_os demo_os]
    nd enter
  show ?thesis by (simp add: ctor demo_os_def)
qed

lemma failed_step_1:
  assumes "start_init this s"
  shows "start_step b env this Creator s = Some (failed_1 this s)"
    and "start_step b env this Spawned s = None"
  using assms
  by (simp_all add: start_init_def start_step_def creator_step_def spawned_step_def
      start_enter_fresh failed_1_def)

lemma failed_step_2:
  assumes "start_init this s" and "pthread_create_ret env \<noteq> 0"
  shows "start_step b env this Creator (failed_1 this s) = Some (failed_2 env this s)"
    and "start_step b env this Spawned (failed_1 this s) = None"
  using assms
  by (simp_all add: start_init_def start_step_def creator_step_def spawned_step_def
      start_create_failed_def failed_1_def failed_2_def delete_ThreadData_def perror_def
      c_str_no_NUL)

lemma failed_runs:
  assumes init: "start_init this s0" and fail: "pthread_create_ret env \<noteq> 0"
    and run: "start_run b env this sched s0 = Some s"
  shows "s = s0 \<or> s = failed_1 this s0 \<or> s = failed_2 env this s0"
proof (cases sched)
  case Nil
  with run show ?thesis by simp
next
  case (Cons who sched1)
  note c1 = Cons
  show ?thesis
  proof (cases who)
    case Spawned
    with run c1 failed_step_1(2) [OF init] show ?thesis by simp
  next
    case Creator
    with run c1 failed_step_1(1) [OF init]
    have run1: "start_run b env this sched1 (failed_1 this s0) = Some s" by simp
    show ?thesis
    proof (cases sched1)
      case Nil
      with run1 show ?thesis by simp
    next
      case (Cons who2 sched2)
      show ?thesis
      proof (cases who2)
        case Spawned
        with run1 Cons failed_step_2(2) [OF init fail] show ?thesis by simp
      next
        case Creator
        with run1 Cons failed_step_2(1) [OF init fail]
        have "start_run b env this sched2 (failed_2 env this s0) = Some s" by simp
        from start_run_died [OF _ this] show ?thesis by (simp add: failed_2_def)
      qed
    qed
  qed
qed

text \<open>
  Claim C7. When \<^verbatim>\<open>pthread_create\<close> fails, the two steps of the caller end in the
  death of the process by \<^verbatim>\<open>abort()\<close>, with \<^verbatim>\<open>started_\<close> back to false, the
  transfer record freed and the \<^verbatim>\<open>perror\<close> line on standard error. Under no schedule
  does \<^verbatim>\<open>start()\<close> return, and no new thread ever runs.
\<close>

theorem pthread_create_failure_is_fatal:
  assumes init: "start_init this s0" and fail: "pthread_create_ret env \<noteq> 0"
  shows "(\<exists>s. start_run b env this [Creator, Creator] s0 = Some s \<and>
            died s = Some Abort \<and>
            \<not> started (objs (proc s) this) \<and>
            heap (proc s) = heap (proc s0) @ [None] \<and>
            stderr (proc s) = stderr (proc s0) @ ''Failed in pthread_create: '' @ errno_text env
                                @ newline) \<and>
         (\<forall>sched s. start_run b env this sched s0 = Some s \<longrightarrow>
            creator s \<noteq> C_returned \<and> spawned s = T_unborn \<and>
            (died s = None \<or> died s = Some Abort \<and> \<not> started (objs (proc s) this)))"
proof -
  have "start_run b env this [Creator, Creator] s0 = Some (failed_2 env this s0)"
    by (simp add: failed_step_1(1) [OF init] failed_step_2(1) [OF init fail])
  then have one: "\<exists>s. start_run b env this [Creator, Creator] s0 = Some s \<and>
            died s = Some Abort \<and>
            \<not> started (objs (proc s) this) \<and>
            heap (proc s) = heap (proc s0) @ [None] \<and>
            stderr (proc s) = stderr (proc s0) @ ''Failed in pthread_create: '' @ errno_text env
                                @ newline"
    by (simp add: failed_2_def)
  have all: "creator s \<noteq> C_returned \<and> spawned s = T_unborn \<and>
            (died s = None \<or> died s = Some Abort \<and> \<not> started (objs (proc s) this))"
    if "start_run b env this sched s0 = Some s" for sched s
    using failed_runs [OF init fail that] init
    by (auto simp: start_init_def failed_1_def failed_2_def)
  from one all show ?thesis by blast
qed

theorem pthread_create_failure_is_fatal_witness:
  "start_init 0 (demo_start_sys Completes ''worker'') \<and>
   pthread_create_ret demo_os_failing \<noteq> 0 \<and>
   (\<exists>s. start_run demo_build demo_os_failing 0 [Creator, Creator]
           (demo_start_sys Completes ''worker'') = Some s \<and>
        died s = Some Abort \<and> \<not> started (objs (proc s) 0) \<and> heap (proc s) = [None] \<and>
        stderr (proc s) = ''Failed in pthread_create: Resource temporarily unavailable'' @ newline)"
proof -
  have init: "start_init 0 (demo_start_sys Completes ''worker'')"
    by (simp add: start_init_def demo_start_sys_def demo_process_def Thread_ctor_def
        setDefaultName_def)
  have fail: "pthread_create_ret demo_os_failing \<noteq> 0"
    by (simp add: demo_os_failing_def)
  from pthread_create_failure_is_fatal [OF init fail, of demo_build] init fail
  show ?thesis by (simp add: demo_start_sys_def demo_process_def demo_os_failing_def)
qed

section \<open>Verification: construction and default names\<close>

lemma sint_32_bound: "\<bar>sint (w :: 32 word)\<bar> < 10000000000"
proof -
  have "- (2 ^ 31) \<le> sint w" "sint w < 2 ^ 31"
    using sint_ge [of w] sint_lt [of w] by simp_all
  then show ?thesis by simp
qed

lemma default_name_text:
  "c_str (fst (snprintf 32 (''Thread'' @ fmt_d (sint (w :: 32 word))))) = ''Thread'' @ fmt_d (sint w)"
proof -
  from fmt_d_length [OF sint_32_bound [of w]]
  have "take 31 (''Thread'' @ fmt_d (sint w)) = ''Thread'' @ fmt_d (sint w)" by simp
  moreover have "CHR 0x00 \<notin> set (''Thread'' @ fmt_d (sint w))"
    using fmt_d_no_NUL [of "sint w"] by simp
  ultimately show ?thesis by (simp add: snprintf_def c_str_no_NUL)
qed

lemma Thread_ctor_name:
  "name (fst (Thread_ctor f n numCreated)) =
     (if n = [] then ''Thread'' @ fmt_d (sint numCreated) else n)"
  using default_name_text [of numCreated]
  by (simp add: Thread_ctor_def setDefaultName_def Let_def split_beta)

lemma Thread_ctor_counter: "snd (Thread_ctor f n numCreated) = numCreated + 1"
  by (simp add: Thread_ctor_def setDefaultName_def Let_def split_beta)

lemma Thread_ctor_name_not_empty: "name (fst (Thread_ctor f n numCreated)) \<noteq> []"
  by (simp add: Thread_ctor_name)

lemma create_threads_Cons:
  "create_threads (r # rs) numCreated
     = (fst (Thread_ctor (fst r) (snd r) numCreated) # fst (create_threads rs (numCreated + 1)),
        snd (create_threads rs (numCreated + 1)))"
  using Thread_ctor_counter [of "fst r" "snd r" numCreated]
  by (simp add: split_beta)

lemma create_threads_length: "length (fst (create_threads rs numCreated)) = length rs"
  by (induction rs arbitrary: numCreated) (simp_all add: create_threads_Cons del: create_threads.simps(2))

lemma create_threads_counter:
  "snd (create_threads rs numCreated) = numCreated + of_nat (length rs)"
  by (induction rs arbitrary: numCreated) (simp_all add: create_threads_Cons del: create_threads.simps(2))

lemma create_threads_nth:
  "i < length rs \<Longrightarrow>
   fst (create_threads rs numCreated) ! i
     = fst (Thread_ctor (fst (rs ! i)) (snd (rs ! i)) (numCreated + of_nat i))"
proof (induction rs arbitrary: numCreated i)
  case Nil
  then show ?case by simp
next
  case (Cons r rs)
  show ?case
  proof (cases i)
    case 0
    then show ?thesis by (simp add: create_threads_Cons del: create_threads.simps(2))
  next
    case (Suc k)
    with Cons.prems have k: "k < length rs" by simp
    from Cons.IH [OF k, of "numCreated + 1"] Suc show ?thesis
      by (simp add: create_threads_Cons add.assoc del: create_threads.simps(2))
  qed
qed

lemma counter_values_differ:
  assumes "i < j" and "j < 2 ^ 32"
  shows "(numCreated + of_nat i :: 32 word) \<noteq> numCreated + of_nat j"
proof
  assume "numCreated + of_nat i = numCreated + of_nat j"
  then have "(of_nat i :: 32 word) = of_nat j" by simp
  then have "take_bit 32 i = take_bit 32 j" by (simp add: word_of_nat_eq_iff)
  moreover from assms have "take_bit 32 i = i" "take_bit 32 j = j"
    by (simp_all add: take_bit_nat_eq_self)
  ultimately show False using assms by simp
qed

lemma default_names_differ:
  assumes "(v :: 32 word) \<noteq> w"
  shows "''Thread'' @ fmt_d (sint v) \<noteq> ''Thread'' @ fmt_d (sint w)"
proof
  assume "''Thread'' @ fmt_d (sint v) = ''Thread'' @ fmt_d (sint w)"
  then have "fmt_d (sint v) = fmt_d (sint w)" by simp
  from fmt_d_inj [OF this] have "v = w" by (rule signed_word_eqI)
  with assms show False by simp
qed

lemma created_default_names_differ:
  assumes len: "length rs \<le> 2 ^ 32" and ij: "i < j" "j < length rs"
    and unnamed: "snd (rs ! i) = []" "snd (rs ! j) = []"
  shows "name (fst (create_threads rs numCreated) ! i) \<noteq> name (fst (create_threads rs numCreated) ! j)"
proof -
  from ij len have i: "i < length rs" and j: "j < 2 ^ 32" by simp_all
  from default_names_differ [OF counter_values_differ [OF ij(1) j, of numCreated]]
  show ?thesis
    by (simp add: create_threads_nth [OF i] create_threads_nth [OF ij(2)] Thread_ctor_name unnamed)
qed

text \<open>
  Claim C4. The code at the claim's own example: in a fresh process, where the counter is
  0, two threads are constructed, each with an empty name. \<^verbatim>\<open>fetch_add(1)\<close>
  returns the counter's value before the addition, so the two are named
  \<^verbatim>\<open>Thread0\<close> and \<^verbatim>\<open>Thread1\<close>, and not \<^verbatim>\<open>Thread1\<close> and
  \<^verbatim>\<open>Thread2\<close>, the names of the claim (and of the call of
  \<^verbatim>\<open>incrementAndGet()\<close> that the source keeps as a comment on the line above).
\<close>

theorem fresh_process_default_names:
  "map name (fst (create_threads [(Completes, []), (Completes, [])] 0)) = [''Thread0'', ''Thread1''] \<and>
   map name (fst (create_threads [(Completes, []), (Completes, [])] 0)) \<noteq> [''Thread1'', ''Thread2'']"
  by (simp add: create_threads_Cons Thread_ctor_name fmt_d_eval del: create_threads.simps(2))

lemma demo_many_unnamed_length: "length demo_many_unnamed = 2 ^ 32 + 1"
  unfolding demo_many_unnamed_def by (rule length_replicate)

lemma demo_many_unnamed_nth: "i < 2 ^ 32 + 1 \<Longrightarrow> demo_many_unnamed ! i = (Completes, [])"
  unfolding demo_many_unnamed_def by (rule nth_replicate)

lemma counter_wraps: "(of_nat (2 ^ 32) :: 32 word) = 0"
  by simp

lemma demo_many_unnamed_names:
  "name (fst (create_threads demo_many_unnamed 0) ! 0) = ''Thread0''"
  "name (fst (create_threads demo_many_unnamed 0) ! (2 ^ 32)) = ''Thread0''"
proof -
  have i: "(0::nat) < length demo_many_unnamed" and j: "(2::nat) ^ 32 < length demo_many_unnamed"
    unfolding demo_many_unnamed_length by simp_all
  have i': "(0::nat) < 2 ^ 32 + 1" and j': "(2::nat) ^ 32 < 2 ^ 32 + 1" by simp_all
  have zero: "(0 + of_nat 0 :: 32 word) = 0" by simp
  have wrap: "(0 + of_nat (2 ^ 32) :: 32 word) = 0"
    unfolding counter_wraps by simp
  have t0: "''Thread'' @ fmt_d (sint (0 :: 32 word)) = ''Thread0''"
    by (simp add: fmt_d_eval)
  show "name (fst (create_threads demo_many_unnamed 0) ! 0) = ''Thread0''"
    unfolding create_threads_nth [OF i] demo_many_unnamed_nth [OF i'] Thread_ctor_name zero
    using t0 by simp
  show "name (fst (create_threads demo_many_unnamed 0) ! (2 ^ 32)) = ''Thread0''"
    unfolding create_threads_nth [OF j] demo_many_unnamed_nth [OF j'] Thread_ctor_name wrap
    using t0 by simp
qed

text \<open>
  Claim C10 as stated fails: the counter has 32 bits and wraps, so the default names are
  not distinct without a bound on the number of constructions. A thread constructed with
  an empty name when the counter has gone round once (\<open>2 ^ 32\<close> constructions later)
  gets the name of the first again: of \<open>2 ^ 32 + 1\<close> threads constructed with empty
  names in a fresh process, the first and the last are both \<^verbatim>\<open>Thread0\<close>.
\<close>

theorem default_names_wrap_counterexample:
  "name (fst (Thread_ctor Completes [] 0)) = ''Thread0'' \<and>
   name (fst (Thread_ctor Completes [] (0 + of_nat (2 ^ 32)))) = ''Thread0'' \<and>
   length demo_many_unnamed = 2 ^ 32 + 1 \<and>
   name (fst (create_threads demo_many_unnamed 0) ! 0)
     = name (fst (create_threads demo_many_unnamed 0) ! (2 ^ 32)) \<and>
   \<not> distinct (map name (fst (create_threads demo_many_unnamed 0)))"
proof -
  have t0: "''Thread'' @ fmt_d (sint (0 :: 32 word)) = ''Thread0''"
    by (simp add: fmt_d_eval)
  have one: "name (fst (Thread_ctor Completes [] 0)) = ''Thread0''"
    unfolding Thread_ctor_name using t0 by simp
  have wrap: "(0 + of_nat (2 ^ 32) :: 32 word) = 0"
    unfolding counter_wraps by simp
  have two: "name (fst (Thread_ctor Completes [] (0 + of_nat (2 ^ 32)))) = ''Thread0''"
    unfolding wrap by (rule one)
  have same: "name (fst (create_threads demo_many_unnamed 0) ! 0)
     = name (fst (create_threads demo_many_unnamed 0) ! (2 ^ 32))"
    unfolding demo_many_unnamed_names ..
  have len: "length (map name (fst (create_threads demo_many_unnamed 0))) = 2 ^ 32 + 1"
    unfolding length_map create_threads_length by (rule demo_many_unnamed_length)
  have i: "(0::nat) < length (map name (fst (create_threads demo_many_unnamed 0)))"
    and j: "(2::nat) ^ 32 < length (map name (fst (create_threads demo_many_unnamed 0)))"
    unfolding len by simp_all
  have i': "(0::nat) < length (fst (create_threads demo_many_unnamed 0))"
    and j': "(2::nat) ^ 32 < length (fst (create_threads demo_many_unnamed 0))"
    using i j by simp_all
  have "\<not> distinct (map name (fst (create_threads demo_many_unnamed 0)))"
  proof
    assume d: "distinct (map name (fst (create_threads demo_many_unnamed 0)))"
    have ne: "(0::nat) \<noteq> 2 ^ 32" by simp
    from nth_eq_iff_index_eq [OF d i j] ne
    have "map name (fst (create_threads demo_many_unnamed 0)) ! 0
            \<noteq> map name (fst (create_threads demo_many_unnamed 0)) ! (2 ^ 32)"
      by blast
    then show False
      unfolding nth_map [OF i'] nth_map [OF j'] using same by blast
  qed
  with one two same demo_many_unnamed_length show ?thesis by blast
qed

text \<open>
  Claim C10, with the bound that the counter's 32 bits force. Every construction adds one
  to the counter, whatever the given name; the name is the given one unless it is empty,
  and then it is \<^verbatim>\<open>Thread\<close> followed by the counter's value before the increment.
  Among at most \<open>2 ^ 32\<close> constructions, named or not, the default names are pairwise
  distinct; they need not be consecutive: an unnamed, a named and an unnamed thread are
  \<^verbatim>\<open>Thread0\<close>, the given name and \<^verbatim>\<open>Thread2\<close>.
\<close>

theorem every_construction_counts:
  "snd (Thread_ctor f n numCreated) = numCreated + 1 \<and>
   name (fst (Thread_ctor f n numCreated))
     = (if n = [] then ''Thread'' @ fmt_d (sint numCreated) else n) \<and>
   snd (create_threads rs numCreated) = numCreated + of_nat (length rs) \<and>
   (length rs \<le> 2 ^ 32 \<longrightarrow>
      (\<forall>i j. i < j \<and> j < length rs \<and> snd (rs ! i) = [] \<and> snd (rs ! j) = [] \<longrightarrow>
         name (fst (create_threads rs numCreated) ! i)
           \<noteq> name (fst (create_threads rs numCreated) ! j))) \<and>
   map name (fst (create_threads [(f, []), (g, ''worker''), (h, [])] 0))
     = [''Thread0'', ''worker'', ''Thread2'']"
proof -
  have ex: "map name (fst (create_threads [(f, []), (g, ''worker''), (h, [])] 0))
     = [''Thread0'', ''worker'', ''Thread2'']"
    by (simp add: create_threads_Cons Thread_ctor_name fmt_d_eval del: create_threads.simps(2))
  from ex created_default_names_differ [of rs _ _ numCreated] show ?thesis
    by (simp add: Thread_ctor_name Thread_ctor_counter create_threads_counter)
qed

theorem every_construction_counts_witness:
  "length [(Completes, []), (Completes, ''worker''), (Completes, [])] \<le> (2::nat) ^ 32 \<and>
   name (fst (create_threads [(Completes, []), (Completes, ''worker''), (Completes, [])] 0) ! 0)
     \<noteq> name (fst (create_threads [(Completes, []), (Completes, ''worker''), (Completes, [])] 0) ! 2) \<and>
   snd (create_threads [(Completes, []), (Completes, ''worker''), (Completes, [])] 0) = 3"
proof -
  have len: "length [(Completes, []), (Completes, ''worker''), (Completes, [])] \<le> (2::nat) ^ 32"
    by simp
  from every_construction_counts
    [of Completes "[]" 0 "[(Completes, []), (Completes, ''worker''), (Completes, [])]"]
  have "(\<forall>i j. i < j \<and> j < length [(Completes, []), (Completes, ''worker''), (Completes, [])] \<and>
           snd ([(Completes, []), (Completes, ''worker''), (Completes, [])] ! i) = [] \<and>
           snd ([(Completes, []), (Completes, ''worker''), (Completes, [])] ! j) = [] \<longrightarrow>
         name (fst (create_threads [(Completes, []), (Completes, ''worker''), (Completes, [])] 0) ! i)
           \<noteq> name (fst (create_threads [(Completes, []), (Completes, ''worker''), (Completes, [])] 0) ! j))"
    and cnt: "snd (create_threads [(Completes, []), (Completes, ''worker''), (Completes, [])] 0)
              = 0 + of_nat (length [(Completes, []), (Completes, ''worker''), (Completes, [])])"
    using len by blast+
  from this(1) [rule_format, of 0 2] cnt len show ?thesis by simp
qed

section \<open>Verification: the trampoline\<close>

lemma runThread_setName_ok:
  assumes "deref (heap p) data = Some d"
  shows "runThread_setName data (ct, p) =
           Returns ()
             (ct\<lparr>t_threadName := (if data_name d = [] then ''LuteThread'' else c_str (data_name d))\<rparr>,
              p\<lparr>trace := trace p @
                   [Set_threadName (if data_name d = [] then ''LuteThread'' else c_str (data_name d)),
                    Prctl_set_name (if data_name d = [] then ''LuteThread'' else c_str (data_name d))]\<rparr>)"
  using assms by (simp add: runThread_setName_def Let_def)

lemma runThread_reaches_call:
  assumes d: "deref (heap p) data = Some d" and t: "data_tid d = Ptr a" and l: "data_latch d = Ptr l"
  shows "runThread gettid data (ct, p) = runThread_call data (before_call gettid data d a l (ct, p)) \<and>
         deref (heap (snd (before_call gettid data d a l (ct, p)))) data
           = Some (d\<lparr>data_tid := nullptr, data_latch := nullptr\<rparr>)"
proof -
  let ?p1 = "p\<lparr>objs := (objs p)(a := (objs p a)\<lparr>tid := fst (CurrentThread_tid gettid ct)\<rparr>),
             heap := (heap p)[data := Some (d\<lparr>data_tid := nullptr\<rparr>)],
             trace := trace p @ [Publish_tid (fst (CurrentThread_tid gettid ct))]\<rparr>"
  have d1: "deref (heap ?p1) data = Some (d\<lparr>data_tid := nullptr\<rparr>)"
    using d by (simp add: deref_update)
  have l1: "data_latch (d\<lparr>data_tid := nullptr\<rparr>) = Ptr l" using l by simp
  let ?p2 = "?p1\<lparr>objs := (objs ?p1)(l := (objs ?p1 l)\<lparr>latch := countDown (latch (objs ?p1 l))\<rparr>),
             heap := (heap ?p1)[data := Some (d\<lparr>data_tid := nullptr, data_latch := nullptr\<rparr>)],
             trace := trace ?p1 @ [Count_down]\<rparr>"
  have d2: "deref (heap ?p2) data = Some (d\<lparr>data_tid := nullptr, data_latch := nullptr\<rparr>)"
    using d by (simp add: deref_update)
  have "runThread gettid data (ct, p) =
          runThread_rest data (snd (CurrentThread_tid gettid ct), ?p2)"
    unfolding runThread_def
    by (simp add: and_then_def runThread_publish_ok [OF d t] runThread_countDown_ok [OF d1 l1])
  also have "\<dots> = runThread_call data (before_call gettid data d a l (ct, p))"
    using runThread_setName_ok [OF d2, of "snd (CurrentThread_tid gettid ct)"]
    by (simp add: runThread_rest_def and_then_def before_call_def Let_def)
  finally have one: "runThread gettid data (ct, p)
      = runThread_call data (before_call gettid data d a l (ct, p))" .
  have two: "deref (heap (snd (before_call gettid data d a l (ct, p)))) data
           = Some (d\<lparr>data_tid := nullptr, data_latch := nullptr\<rparr>)"
    using d by (simp add: before_call_def Let_def deref_update)
  from one two show ?thesis ..
qed

lemma runThread_trace:
  assumes d: "deref (heap p) data = Some d" and t: "data_tid d = Ptr a" and l: "data_latch d = Ptr l"
  shows "trace (snd (outcome_state (runThread gettid data (ct, p))))
           = trace p @
             [Publish_tid (fst (CurrentThread_tid gettid ct)),
              Count_down,
              Set_threadName (if data_name d = [] then ''LuteThread'' else c_str (data_name d)),
              Prctl_set_name (if data_name d = [] then ''LuteThread'' else c_str (data_name d)),
              Call_func] \<and>
         tid (objs (snd (outcome_state (runThread gettid data (ct, p)))) a)
           = fst (CurrentThread_tid gettid ct) \<and>
         latch (objs (snd (outcome_state (runThread gettid data (ct, p)))) l)
           = latch (objs p l) - 1 \<and>
         count_list (trace (snd (outcome_state (runThread gettid data (ct, p))))) Call_func
           = count_list (trace p) Call_func + 1"
proof -
  note r = runThread_reaches_call [OF d t l, of gettid ct]
  have tr: "trace (snd (outcome_state (runThread gettid data (ct, p))))
           = trace p @
             [Publish_tid (fst (CurrentThread_tid gettid ct)),
              Count_down,
              Set_threadName (if data_name d = [] then ''LuteThread'' else c_str (data_name d)),
              Prctl_set_name (if data_name d = [] then ''LuteThread'' else c_str (data_name d)),
              Call_func]"
    using r
    by (cases "data_func d")
       (simp_all add: runThread_call_def before_call_def Let_def outcome_state_def)
  have ob: "objs (snd (outcome_state (runThread gettid data (ct, p))))
           = objs (snd (before_call gettid data d a l (ct, p)))"
    using r
    by (cases "data_func d")
       (simp_all add: runThread_call_def before_call_def Let_def outcome_state_def)
  have "tid (objs (snd (before_call gettid data d a l (ct, p))) a) = fst (CurrentThread_tid gettid ct)"
    and "latch (objs (snd (before_call gettid data d a l (ct, p))) l) = latch (objs p l) - 1"
    by (simp_all add: before_call_def Let_def countDown_def)
  with tr ob show ?thesis by simp
qed

lemma start_enter_record:
  assumes "start_enter b this p = Returns data p'"
  shows "deref (heap p') data
           = Some (ThreadData_ctor (func (objs p this)) (name (objs p this)) (Ptr this) (Ptr this))"
  using assms
  by (auto simp: start_enter_def new_ThreadData_def deref_new split: option.splits)

lemma demo_started_eq:
  "demo_started f n =
     (demo_process f n)
       \<lparr>objs := (objs (demo_process f n))(0 := (fst (Thread_ctor f n 0))\<lparr>started := True\<rparr>),
        heap := [Some (ThreadData_ctor f (name (fst (Thread_ctor f n 0))) (Ptr 0) (Ptr 0))]\<rparr>"
proof -
  have "\<not> started (objs (demo_process f n) 0)"
    by (simp add: demo_process_def Thread_ctor_def setDefaultName_def Let_def split_beta)
  from start_enter_fresh [OF this, of demo_build] show ?thesis
    by (simp add: demo_started_def outcome_state_def demo_process_def Thread_ctor_def
        setDefaultName_def Let_def split_beta)
qed

lemma demo_started_record:
  "deref (heap (demo_started f n)) 0
     = Some (ThreadData_ctor f (name (fst (Thread_ctor f n 0))) (Ptr 0) (Ptr 0))"
  by (simp add: demo_started_eq deref_def)

lemma fresh_tid: "fst (CurrentThread_tid g fresh_thread) = g"
  by (simp add: CurrentThread_tid_uncached fresh_thread_def)

text \<open>
  Claim C3, as the code has it. Run on a transfer record whose two pointers are not null,
  the trampoline does, in this order and whatever the user function then does: publish
  \<^verbatim>\<open>CurrentThread::tid()\<close> into the slot, count the latch down, set the thread's
  display name and pass it to \<^verbatim>\<open>prctl(PR_SET_NAME)\<close>, call the user function; it
  calls it once. The display name is the record's name read as a C string, or
  \<^verbatim>\<open>LuteThread\<close> when the record's name is empty. The record that \<^verbatim>\<open>start()\<close>
  builds for a constructed thread has both pointers set and a name that is not empty: the
  given one, or the constructor's default.
\<close>

theorem trampoline_order:
  assumes d: "deref (heap p) data = Some d" and t: "data_tid d = Ptr a" and l: "data_latch d = Ptr l"
  shows "trace (snd (outcome_state (runThread gettid data (ct, p))))
           = trace p @
             [Publish_tid (fst (CurrentThread_tid gettid ct)),
              Count_down,
              Set_threadName (if data_name d = [] then ''LuteThread'' else c_str (data_name d)),
              Prctl_set_name (if data_name d = [] then ''LuteThread'' else c_str (data_name d)),
              Call_func] \<and>
         tid (objs (snd (outcome_state (runThread gettid data (ct, p)))) a)
           = fst (CurrentThread_tid gettid ct) \<and>
         latch (objs (snd (outcome_state (runThread gettid data (ct, p)))) l)
           = latch (objs p l) - 1 \<and>
         count_list (trace (snd (outcome_state (runThread gettid data (ct, p))))) Call_func
           = count_list (trace p) Call_func + 1 \<and>
         (\<forall>b this p0 data' p' f n numCreated.
            objs p0 this = fst (Thread_ctor f n numCreated) \<and>
            start_enter b this p0 = Returns data' p' \<longrightarrow>
            (\<exists>d'. deref (heap p') data' = Some d' \<and> data_tid d' = Ptr this \<and>
                  data_latch d' = Ptr this \<and>
                  data_name d' = (if n = [] then ''Thread'' @ fmt_d (sint numCreated) else n) \<and>
                  data_name d' \<noteq> []))"
proof -
  have built: "\<exists>d'. deref (heap p') data' = Some d' \<and> data_tid d' = Ptr this \<and>
                  data_latch d' = Ptr this \<and>
                  data_name d' = (if n = [] then ''Thread'' @ fmt_d (sint numCreated) else n) \<and>
                  data_name d' \<noteq> []"
    if "objs p0 this = fst (Thread_ctor f n numCreated) \<and>
        start_enter b this p0 = Returns data' p'"
    for b this p0 data' p' f n numCreated
    using start_enter_record [of b this p0 data' p'] that
      Thread_ctor_name [of f n numCreated]
    by (simp add: ThreadData_ctor_def)
  from runThread_trace [OF d t l, of gettid ct] built show ?thesis by blast
qed

theorem trampoline_order_witness:
  "deref (heap (demo_started Completes ''worker'')) 0
     = Some (ThreadData_ctor Completes ''worker'' (Ptr 0) (Ptr 0)) \<and>
   trace (snd (outcome_state (runThread 4711 0 (fresh_thread, demo_started Completes ''worker''))))
     = [Publish_tid 4711, Count_down, Set_threadName ''worker'', Prctl_set_name ''worker'',
        Call_func] \<and>
   tid (objs (snd (outcome_state (runThread 4711 0 (fresh_thread, demo_started Completes ''worker'')))) 0)
     = 4711"
proof -
  have n: "name (fst (Thread_ctor Completes ''worker'' 0)) = ''worker''"
    by (simp add: Thread_ctor_name)
  have c: "c_str ''worker'' = ''worker''" by (simp add: c_str_def)
  have d: "deref (heap (demo_started Completes ''worker'')) 0
     = Some (ThreadData_ctor Completes ''worker'' (Ptr 0) (Ptr 0))"
    using demo_started_record [of Completes "''worker''"] by (simp add: n)
  from trampoline_order [OF d, of 0 0 4711 fresh_thread] d
  show ?thesis
    by (simp add: ThreadData_ctor_def fresh_tid c demo_started_eq demo_process_def)
qed

text \<open>
  Claim C3 as stated fails: on a record with an empty name the display name is
  \<^verbatim>\<open>LuteThread\<close>, and for a thread constructed with an empty name and started it is
  the default name \<^verbatim>\<open>Thread0\<close>; in neither case is it \<^verbatim>\<open>Thread\<close>.
\<close>

theorem trampoline_default_name_counterexample:
  "trace (snd (outcome_state (runThread 4711 0 (fresh_thread, demo_unnamed_record))))
     = [Publish_tid 4711, Count_down, Set_threadName ''LuteThread'',
        Prctl_set_name ''LuteThread'', Call_func] \<and>
   ''LuteThread'' \<noteq> ''Thread'' \<and>
   trace (snd (outcome_state (runThread 4711 0 (fresh_thread, demo_started Completes []))))
     = [Publish_tid 4711, Count_down, Set_threadName ''Thread0'',
        Prctl_set_name ''Thread0'', Call_func] \<and>
   ''Thread0'' \<noteq> ''Thread''"
proof -
  have d1: "deref (heap demo_unnamed_record) 0 = Some (ThreadData_ctor Completes [] (Ptr 0) (Ptr 0))"
    by (simp add: demo_unnamed_record_def deref_def)
  have n0: "name (fst (Thread_ctor Completes [] 0)) = ''Thread0''"
    by (simp add: Thread_ctor_name fmt_d_eval)
  have c0: "c_str ''Thread0'' = ''Thread0''" by (simp add: c_str_def)
  from runThread_trace [OF d1, of 0 0 4711 fresh_thread]
       runThread_trace [OF demo_started_record [of Completes "[]"], of 0 0 4711 fresh_thread]
  show ?thesis
    by (simp add: ThreadData_ctor_def fresh_tid n0 c0 demo_unnamed_record_def demo_started_eq
        demo_process_def)
qed

text \<open>
  Claim C8. On a record whose pointers are not null: if the user function returns, the
  trampoline returns with the display name \<^verbatim>\<open>finished\<close> and nothing written; if it
  throws a \<^verbatim>\<open>Lute::Exception\<close>, the display name is \<^verbatim>\<open>crashed\<close>, standard error
  receives the three lines \<^verbatim>\<open>exception caught in Thread <name>\<close>,
  \<^verbatim>\<open>reason: <what>\<close>, \<^verbatim>\<open>stack trace: <trace>\<close>, and the process aborts; another
  \<^verbatim>\<open>std::exception\<close> gives the first two lines and the abort; anything else sets the
  display name to \<^verbatim>\<open>crashed\<close>, writes one line and is thrown again, which ends the
  process since nothing above the trampoline catches it.
\<close>

theorem trampoline_faults:
  assumes d: "deref (heap p) data = Some d" and t: "data_tid d = Ptr a" and l: "data_latch d = Ptr l"
  shows "(data_func d = Completes \<longrightarrow>
            (\<exists>ct' p'. runThread gettid data (ct, p) = Returns () (ct', p') \<and>
               t_threadName ct' = ''finished'' \<and> stderr p' = stderr p)) \<and>
         (\<forall>what stackTrace. data_func d = Throws_Exception what stackTrace \<longrightarrow>
            (\<exists>ct' p'. runThread gettid data (ct, p) = Dies Abort (ct', p') \<and>
               t_threadName ct' = ''crashed'' \<and>
               stderr p' = stderr p
                 @ ''exception caught in Thread '' @ c_str (data_name d) @ newline
                 @ ''reason: '' @ c_str what @ newline
                 @ ''stack trace: '' @ c_str stackTrace @ newline)) \<and>
         (\<forall>what. data_func d = Throws_std_exception what \<longrightarrow>
            (\<exists>ct' p'. runThread gettid data (ct, p) = Dies Abort (ct', p') \<and>
               t_threadName ct' = ''crashed'' \<and>
               stderr p' = stderr p
                 @ ''exception caught in Thread '' @ c_str (data_name d) @ newline
                 @ ''reason: '' @ c_str what @ newline)) \<and>
         (data_func d = Throws_other \<longrightarrow>
            (\<exists>ct' p'. runThread gettid data (ct, p) = Rethrows (ct', p') \<and>
               t_threadName ct' = ''crashed'' \<and>
               stderr p' = stderr p
                 @ ''unknown exception caught in Thread '' @ c_str (data_name d) @ newline \<and>
               startThread gettid data (ct, p) = Dies Terminate (ct', p'))) \<and>
         (data_func d = Never_returns \<longrightarrow>
            (\<exists>ct' p'. runThread gettid data (ct, p) = Blocks (ct', p') \<and> stderr p' = stderr p))"
proof -
  obtain ct1 p1 where bc: "before_call gettid data d a l (ct, p) = (ct1, p1)"
    by (cases "before_call gettid data d a l (ct, p)")
  from runThread_reaches_call [OF d t l, of gettid ct] bc
  have run: "runThread gettid data (ct, p) = runThread_call data (ct1, p1)"
    and d1: "deref (heap p1) data = Some (d\<lparr>data_tid := nullptr, data_latch := nullptr\<rparr>)"
    by simp_all
  from bc have err: "stderr p1 = stderr p"
    by (auto simp: before_call_def Let_def)
  show ?thesis
    by (cases "data_func d")
       (simp_all add: run runThread_call_def d1 err startThread_def Let_def fprintf_s_def)
qed

theorem trampoline_faults_witness:
  "deref (heap (demo_started (Throws_Exception ''boom'' ''main+0x1'') ''worker'')) 0
     = Some (ThreadData_ctor (Throws_Exception ''boom'' ''main+0x1'') ''worker'' (Ptr 0) (Ptr 0)) \<and>
   (\<exists>ct' p'. runThread 4711 0
                (fresh_thread, demo_started (Throws_Exception ''boom'' ''main+0x1'') ''worker'')
              = Dies Abort (ct', p') \<and>
      t_threadName ct' = ''crashed'' \<and>
      stderr p' = ''exception caught in Thread worker'' @ newline
                  @ ''reason: boom'' @ newline
                  @ ''stack trace: main+0x1'' @ newline)"
proof -
  have n: "name (fst (Thread_ctor (Throws_Exception ''boom'' ''main+0x1'') ''worker'' 0)) = ''worker''"
    by (simp add: Thread_ctor_name)
  have c: "c_str ''worker'' = ''worker''" "c_str ''boom'' = ''boom''"
    "c_str ''main+0x1'' = ''main+0x1''"
    by (simp_all add: c_str_def)
  have d: "deref (heap (demo_started (Throws_Exception ''boom'' ''main+0x1'') ''worker'')) 0
     = Some (ThreadData_ctor (Throws_Exception ''boom'' ''main+0x1'') ''worker'' (Ptr 0) (Ptr 0))"
    using demo_started_record [of "Throws_Exception ''boom'' ''main+0x1''" "''worker''"]
    by (simp add: n)
  from trampoline_faults [OF d, of 0 0 4711 fresh_thread] d
  show ?thesis
    by (simp add: ThreadData_ctor_def c demo_started_eq demo_process_def)
qed

end
